theory Spec2Isabelle
  imports Main "HOL-Library.Word"
begin

unbundle bit_operations_syntax

section \<open>Memory, errors and the bounded readers\<close>

text \<open>
  The index works on bytes of memory-mapped files through C pointers. The address
  space is modelled as one total function from addresses to bytes, a pointer as a
  natural-number address and a section as its start address and its size, so that
  the code's own bounds checks (and nothing else) decide what is read. A pointer the
  code leaves \<open>NULL\<close> to say ``not set'' (the name and the sibling of a DIE) is an
  option, so the address 0 is an address like any other. \<open>size_t\<close> is 64 bits wide
  (the code rejects 32-bit ELF and is built for x86-64), so the \<open>tmp > SIZE_MAX\<close>
  tests of the \<open>_into_size_t\<close> readers never fire and are omitted.
\<close>

type_synonym memory = "nat \<Rightarrow> 8 word"

text \<open>
  The Python exceptions the code sets. Formatted messages keep their fixed text;
  the number printed into them is not modelled.
\<close>

datatype error =
    EOFError
  | OverflowError string
  | ElfFormatError string
  | DwarfFormatError string
  | NotImplementedError string
  | MemoryError
  | ValueError string

definition in_bounds :: "nat \<Rightarrow> nat \<Rightarrow> nat \<Rightarrow> bool" where
  "in_bounds ptr endp sz = (ptr \<le> endp \<and> endp - ptr \<ge> sz)"

text \<open>Little-endian loads, as the casts \<open>*(const uintN_t *)ptr\<close> perform them on x86-64.\<close>

definition load_u8 :: "memory \<Rightarrow> nat \<Rightarrow> 8 word" where
  "load_u8 mem p = mem p"

definition load_u16 :: "memory \<Rightarrow> nat \<Rightarrow> 16 word" where
  "load_u16 mem p = ucast (mem p) OR push_bit 8 (ucast (mem (p + 1)))"

definition load_u32 :: "memory \<Rightarrow> nat \<Rightarrow> 32 word" where
  "load_u32 mem p = ucast (load_u16 mem p) OR push_bit 16 (ucast (load_u16 mem (p + 2)))"

definition load_u64 :: "memory \<Rightarrow> nat \<Rightarrow> 64 word" where
  "load_u64 mem p = ucast (load_u32 mem p) OR push_bit 32 (ucast (load_u32 mem (p + 4)))"

definition read_u8 :: "memory \<Rightarrow> nat \<Rightarrow> nat \<Rightarrow> error + (8 word \<times> nat)" where
  "read_u8 mem ptr endp =
     (if \<not> in_bounds ptr endp 1 then Inl EOFError
      else Inr (load_u8 mem ptr, ptr + 1))"

definition read_u16 :: "memory \<Rightarrow> nat \<Rightarrow> nat \<Rightarrow> error + (16 word \<times> nat)" where
  "read_u16 mem ptr endp =
     (if \<not> in_bounds ptr endp 2 then Inl EOFError
      else Inr (load_u16 mem ptr, ptr + 2))"

definition read_u32 :: "memory \<Rightarrow> nat \<Rightarrow> nat \<Rightarrow> error + (32 word \<times> nat)" where
  "read_u32 mem ptr endp =
     (if \<not> in_bounds ptr endp 4 then Inl EOFError
      else Inr (load_u32 mem ptr, ptr + 4))"

definition read_u64 :: "memory \<Rightarrow> nat \<Rightarrow> nat \<Rightarrow> error + (64 word \<times> nat)" where
  "read_u64 mem ptr endp =
     (if \<not> in_bounds ptr endp 8 then Inl EOFError
      else Inr (load_u64 mem ptr, ptr + 8))"

subsection \<open>read_uleb128\<close>

text \<open>
  The loop of \<open>read_uleb128\<close>: \<open>shift\<close> and \<open>val\<close> are the loop variables, the
  result is the decoded value with the advanced pointer.
\<close>

function read_uleb128_loop ::
  "memory \<Rightarrow> nat \<Rightarrow> nat \<Rightarrow> nat \<Rightarrow> 64 word \<Rightarrow> error + (64 word \<times> nat)" where
  "read_uleb128_loop mem ptr endp shift val =
     (if ptr \<ge> endp then Inl EOFError
      else
        let byte = mem ptr; ptr' = ptr + 1 in
        if shift = 63 \<and> byte > 1
        then Inl (OverflowError ''ULEB128 overflowed unsigned 64-bit integer'')
        else
          let val' = val OR push_bit shift (ucast (byte AND 0x7f)) in
          if byte AND 0x80 = 0 then Inr (val', ptr')
          else read_uleb128_loop mem ptr' endp (shift + 7) val')"
  by pat_completeness auto
termination
  by (relation "measure (\<lambda>(mem, ptr, endp, shift, val). endp - ptr)") auto

declare read_uleb128_loop.simps [simp del]

definition read_uleb128 :: "memory \<Rightarrow> nat \<Rightarrow> nat \<Rightarrow> error + (64 word \<times> nat)" where
  "read_uleb128 mem ptr endp = read_uleb128_loop mem ptr endp 0 0"

subsection \<open>The standard meaning of a ULEB128 encoding\<close>

text \<open>
  The reference reading of an encoding, on the list of bytes available at the input
  position: the bytes up to the first one whose high bit is clear, seven payload bits
  each, least significant group first. \<open>None\<close> when no such byte is available.
\<close>

fun uleb128_value :: "8 word list \<Rightarrow> nat option" where
  "uleb128_value [] = None"
| "uleb128_value (b # bs) =
     (if b AND 0x80 = 0 then Some (unat b)
      else map_option (\<lambda>v. unat (b AND 0x7f) + 128 * v) (uleb128_value bs))"

fun uleb128_length :: "8 word list \<Rightarrow> nat" where
  "uleb128_length [] = 0"
| "uleb128_length (b # bs) = (if b AND 0x80 = 0 then 1 else Suc (uleb128_length bs))"

definition bytes_at :: "memory \<Rightarrow> nat \<Rightarrow> nat \<Rightarrow> 8 word list" where
  "bytes_at mem ptr endp = map mem [ptr..<endp]"

text \<open>
  The condition under which the loop reaches its tenth byte and refuses it: nine
  continuation bytes followed by a byte greater than 1.
\<close>

definition uleb128_tenth_byte_refused :: "memory \<Rightarrow> nat \<Rightarrow> nat \<Rightarrow> bool" where
  "uleb128_tenth_byte_refused mem ptr endp =
     (ptr + 10 \<le> endp \<and> list_all (\<lambda>k. mem (ptr + k) AND 0x80 \<noteq> 0) [0..<9] \<and> mem (ptr + 9) > 1)"

definition mem_of :: "8 word list \<Rightarrow> memory" where
  "mem_of bs = (\<lambda>a. if a < length bs then bs ! a else 0)"

text \<open>
  The same condition seen from inside the loop, after \<open>k\<close> continuation bytes have
  been consumed.
\<close>

definition refused_from :: "memory \<Rightarrow> nat \<Rightarrow> nat \<Rightarrow> nat \<Rightarrow> bool" where
  "refused_from mem ptr endp k =
     (ptr + (10 - k) \<le> endp \<and> (\<forall>j<9 - k. mem (ptr + j) AND 0x80 \<noteq> 0) \<and> mem (ptr + (9 - k)) > 1)"


section \<open>ELF sections and relocation\<close>

text \<open>
  \<open>struct section\<close>: the index of the section header, the address of the section's
  first byte in the mapping, and its size in bytes.
\<close>

record elf_section =
  shdr_index :: "16 word"
  buffer :: nat
  size_sec :: "64 word"

text \<open>
  The layouts of \<open>Elf64_Rela\<close> and \<open>Elf64_Sym\<close> are those of the ELF-64 object file
  format (\<open>elf.h\<close>): three 8-byte fields \<open>r_offset\<close>, \<open>r_info\<close>, \<open>r_addend\<close>;
  and \<open>st_name\<close> (4 bytes), \<open>st_info\<close> (1), \<open>st_other\<close> (1), \<open>st_shndx\<close> (2),
  \<open>st_value\<close> (8), \<open>st_size\<close> (8).
\<close>

definition sizeof_Elf64_Rela :: nat where
  "sizeof_Elf64_Rela = 8 + 8 + 8"

definition sizeof_Elf64_Sym :: nat where
  "sizeof_Elf64_Sym = 4 + 1 + 1 + 2 + 8 + 8"

record Elf64_Rela =
  r_offset :: "64 word"
  r_info :: "64 word"
  r_addend :: "64 word"

definition load_rela :: "memory \<Rightarrow> nat \<Rightarrow> nat \<Rightarrow> Elf64_Rela" where
  "load_rela mem relocs i =
     \<lparr> r_offset = load_u64 mem (relocs + sizeof_Elf64_Rela * i),
       r_info = load_u64 mem (relocs + sizeof_Elf64_Rela * i + 8),
       r_addend = load_u64 mem (relocs + sizeof_Elf64_Rela * i + 16) \<rparr>"

definition load_st_value :: "memory \<Rightarrow> nat \<Rightarrow> nat \<Rightarrow> 64 word" where
  "load_st_value mem syms k = load_u64 mem (syms + sizeof_Elf64_Sym * k + 8)"

definition R_X86_64_NONE :: "32 word" where "R_X86_64_NONE = 0"
definition R_X86_64_64 :: "32 word" where "R_X86_64_64 = 1"
definition R_X86_64_32 :: "32 word" where "R_X86_64_32 = 10"

definition SIZE_MAX :: "64 word" where
  "SIZE_MAX = - 1"

text \<open>Little-endian stores, \<open>*(uint32_t *)p = v\<close> and \<open>*(uint64_t *)p = v\<close>.\<close>

definition store_u32 :: "memory \<Rightarrow> nat \<Rightarrow> 32 word \<Rightarrow> memory" where
  "store_u32 mem p v =
     (\<lambda>a. if p \<le> a \<and> a < p + 4 then ucast (drop_bit (8 * (a - p)) v) else mem a)"

definition store_u64 :: "memory \<Rightarrow> nat \<Rightarrow> 64 word \<Rightarrow> memory" where
  "store_u64 mem p v =
     (\<lambda>a. if p \<le> a \<and> a < p + 8 then ucast (drop_bit (8 * (a - p)) v) else mem a)"

definition rela_sym :: "Elf64_Rela \<Rightarrow> 32 word" where
  "rela_sym rela = ucast (drop_bit 32 (r_info rela))"

definition rela_type :: "Elf64_Rela \<Rightarrow> 32 word" where
  "rela_type rela = ucast (r_info rela AND 0xffffffff)"

text \<open>
  The body of the loop of \<open>apply_relocations\<close> for one entry \<open>relocs[i]\<close>: the
  \<open>switch\<close> on the relocation type. The sum \<open>st_value + r_addend\<close> is computed in
  64 bits and truncated by the 32-bit store.
\<close>

definition apply_relocation ::
  "memory \<Rightarrow> elf_section \<Rightarrow> nat \<Rightarrow> nat \<Rightarrow> Elf64_Rela \<Rightarrow> error + memory" where
  "apply_relocation mem sec syms num_syms rela =
     (let p = buffer sec + unat (r_offset rela);
          r_sym = rela_sym rela;
          r_type = rela_type rela
      in
        if r_type = R_X86_64_NONE then Inr mem
        else if r_type = R_X86_64_32 then
          if unat r_sym \<ge> num_syms then Inl (ElfFormatError ''invalid relocation symbol'')
          else if r_offset rela > SIZE_MAX - 4 \<or> r_offset rela + 4 > size_sec sec
          then Inl (ElfFormatError ''invalid relocation offset'')
          else Inr (store_u32 mem p (ucast (load_st_value mem syms (unat r_sym) + r_addend rela)))
        else if r_type = R_X86_64_64 then
          if unat r_sym \<ge> num_syms then Inl (ElfFormatError ''invalid relocation symbol'')
          else if r_offset rela > SIZE_MAX - 8 \<or> r_offset rela + 8 > size_sec sec
          then Inl (ElfFormatError ''invalid relocation offset'')
          else Inr (store_u64 mem p (load_st_value mem syms (unat r_sym) + r_addend rela))
        else Inl (NotImplementedError ''unimplemented relocation type''))"

function apply_relocations_loop ::
  "memory \<Rightarrow> elf_section \<Rightarrow> nat \<Rightarrow> nat \<Rightarrow> nat \<Rightarrow> nat \<Rightarrow> nat \<Rightarrow> error + memory" where
  "apply_relocations_loop mem sec relocs num_relocs syms num_syms i =
     (if i < num_relocs then
        (case apply_relocation mem sec syms num_syms (load_rela mem relocs i) of
           Inl e \<Rightarrow> Inl e
         | Inr mem' \<Rightarrow> apply_relocations_loop mem' sec relocs num_relocs syms num_syms (i + 1))
      else Inr mem)"
  by pat_completeness auto
termination
  by (relation "measure (\<lambda>(mem, sec, relocs, num_relocs, syms, num_syms, i). num_relocs - i)") auto

declare apply_relocations_loop.simps [simp del]

text \<open>
  \<open>apply_relocations\<close>. The number of symbols is computed, as in the source, with the
  size of a relocation entry.
\<close>

definition apply_relocations ::
  "memory \<Rightarrow> elf_section \<Rightarrow> elf_section \<Rightarrow> elf_section \<Rightarrow> error + memory" where
  "apply_relocations mem sec rela_section symtab =
     (let relocs = buffer rela_section;
          num_relocs = unat (size_sec rela_section) div sizeof_Elf64_Rela;
          syms = buffer symtab;
          num_syms = unat (size_sec symtab) div sizeof_Elf64_Rela
      in apply_relocations_loop mem sec relocs num_relocs syms num_syms 0)"

subsection \<open>Notions used to state what relocation achieves\<close>


text \<open>The value a relocation entry denotes: \<open>syms[r_sym].st_value + r_addend\<close>.\<close>

definition reloc_value :: "memory \<Rightarrow> nat \<Rightarrow> Elf64_Rela \<Rightarrow> 64 word" where
  "reloc_value mem syms rela = load_st_value mem syms (unat (rela_sym rela)) + r_addend rela"







text \<open>The bytes of a result memory between two addresses, for stating concrete outcomes.\<close>

definition result_bytes :: "error + memory \<Rightarrow> nat \<Rightarrow> nat \<Rightarrow> error + 8 word list" where
  "result_bytes r p q = (case r of Inl e \<Rightarrow> Inl e | Inr m \<Rightarrow> Inr (bytes_at m p q))"


text \<open>
  The RELA section cut after its first \<open>i\<close> entries: \<open>apply_relocations\<close> on it
  runs the loop over the entries before the \<open>i\<close>-th and stops. It is used to say that
  the entries before one entry are accepted, and what the function returns at that entry.
\<close>

definition first_relocs :: "elf_section \<Rightarrow> nat \<Rightarrow> elf_section" where
  "first_relocs rela_section i =
     rela_section\<lparr> size_sec := word_of_nat (sizeof_Elf64_Rela * i) \<rparr>"

subsection \<open>Small mappings used as concrete inputs\<close>













text \<open>
  A mapping of 80 bytes like the first one, whose second entry is an \<open>R_X86_64_32\<close>
  entry for symbol 1, while the symbol table has the single symbol 0.
\<close>

definition bad_sym_mem :: memory where
  "bad_sym_mem = mem_of
     [0, 0, 0, 0, 0, 0, 0, 0,
      0, 0, 0, 0, 0, 0, 0, 0,   1, 0, 0, 0, 0, 0, 0, 0,   1, 0, 0, 0, 0, 0, 0, 0,
      0, 0, 0, 0, 0, 0, 0, 0,   10, 0, 0, 0, 1, 0, 0, 0,   2, 0, 0, 0, 0, 0, 0, 0,
      0, 0, 0, 0, 0, 0, 0, 0,   0x10, 0, 0, 0, 0, 0, 0, 0,   0, 0, 0, 0, 0, 0, 0, 0]"

definition bad_sym_sec :: elf_section where
  "bad_sym_sec = \<lparr> shdr_index = 1, buffer = 0, size_sec = 8 \<rparr>"

definition bad_sym_rela :: elf_section where
  "bad_sym_rela = \<lparr> shdr_index = 2, buffer = 8, size_sec = 48 \<rparr>"

definition bad_sym_symtab :: elf_section where
  "bad_sym_symtab = \<lparr> shdr_index = 3, buffer = 56, size_sec = 24 \<rparr>"














section \<open>Compilation units and the abbreviation compiler\<close>

text \<open>
  The constants of \<open>dwarf.h\<close> used by the code, with the values the DWARF standard
  assigns to them.
\<close>

definition DW_TAG_class_type :: "64 word" where "DW_TAG_class_type = 0x02"
definition DW_TAG_enumeration_type :: "64 word" where "DW_TAG_enumeration_type = 0x04"
definition DW_TAG_structure_type :: "64 word" where "DW_TAG_structure_type = 0x13"
definition DW_TAG_typedef :: "64 word" where "DW_TAG_typedef = 0x16"
definition DW_TAG_union_type :: "64 word" where "DW_TAG_union_type = 0x17"
definition DW_TAG_base_type :: "64 word" where "DW_TAG_base_type = 0x24"
definition DW_TAG_variable :: "64 word" where "DW_TAG_variable = 0x34"

definition DW_AT_sibling :: "64 word" where "DW_AT_sibling = 0x01"
definition DW_AT_name :: "64 word" where "DW_AT_name = 0x03"
definition DW_AT_declaration :: "64 word" where "DW_AT_declaration = 0x3c"

definition DW_FORM_addr :: "64 word" where "DW_FORM_addr = 0x01"
definition DW_FORM_block2 :: "64 word" where "DW_FORM_block2 = 0x03"
definition DW_FORM_block4 :: "64 word" where "DW_FORM_block4 = 0x04"
definition DW_FORM_data2 :: "64 word" where "DW_FORM_data2 = 0x05"
definition DW_FORM_data4 :: "64 word" where "DW_FORM_data4 = 0x06"
definition DW_FORM_data8 :: "64 word" where "DW_FORM_data8 = 0x07"
definition DW_FORM_string :: "64 word" where "DW_FORM_string = 0x08"
definition DW_FORM_block1 :: "64 word" where "DW_FORM_block1 = 0x0a"
definition DW_FORM_data1 :: "64 word" where "DW_FORM_data1 = 0x0b"
definition DW_FORM_flag :: "64 word" where "DW_FORM_flag = 0x0c"
definition DW_FORM_sdata :: "64 word" where "DW_FORM_sdata = 0x0d"
definition DW_FORM_strp :: "64 word" where "DW_FORM_strp = 0x0e"
definition DW_FORM_udata :: "64 word" where "DW_FORM_udata = 0x0f"
definition DW_FORM_ref_addr :: "64 word" where "DW_FORM_ref_addr = 0x10"
definition DW_FORM_ref1 :: "64 word" where "DW_FORM_ref1 = 0x11"
definition DW_FORM_ref2 :: "64 word" where "DW_FORM_ref2 = 0x12"
definition DW_FORM_ref4 :: "64 word" where "DW_FORM_ref4 = 0x13"
definition DW_FORM_ref8 :: "64 word" where "DW_FORM_ref8 = 0x14"
definition DW_FORM_ref_udata :: "64 word" where "DW_FORM_ref_udata = 0x15"
definition DW_FORM_indirect :: "64 word" where "DW_FORM_indirect = 0x16"
definition DW_FORM_sec_offset :: "64 word" where "DW_FORM_sec_offset = 0x17"
definition DW_FORM_exprloc :: "64 word" where "DW_FORM_exprloc = 0x18"
definition DW_FORM_flag_present :: "64 word" where "DW_FORM_flag_present = 0x19"
definition DW_FORM_ref_sig8 :: "64 word" where "DW_FORM_ref_sig8 = 0x20"

lemmas DW_TAG_defs =
  DW_TAG_class_type_def DW_TAG_enumeration_type_def DW_TAG_structure_type_def
  DW_TAG_typedef_def DW_TAG_union_type_def DW_TAG_base_type_def DW_TAG_variable_def

lemmas DW_AT_defs = DW_AT_sibling_def DW_AT_name_def DW_AT_declaration_def

lemmas DW_FORM_defs =
  DW_FORM_addr_def DW_FORM_block2_def DW_FORM_block4_def DW_FORM_data2_def
  DW_FORM_data4_def DW_FORM_data8_def DW_FORM_string_def DW_FORM_block1_def
  DW_FORM_data1_def DW_FORM_flag_def DW_FORM_sdata_def DW_FORM_strp_def
  DW_FORM_udata_def DW_FORM_ref_addr_def DW_FORM_ref1_def DW_FORM_ref2_def
  DW_FORM_ref4_def DW_FORM_ref8_def DW_FORM_ref_udata_def DW_FORM_indirect_def
  DW_FORM_sec_offset_def DW_FORM_exprloc_def DW_FORM_flag_present_def
  DW_FORM_ref_sig8_def

text \<open>The commands of a compiled abbreviation.\<close>

definition ATTRIB_BLOCK1 :: "8 word" where "ATTRIB_BLOCK1 = 243"
definition ATTRIB_BLOCK2 :: "8 word" where "ATTRIB_BLOCK2 = 244"
definition ATTRIB_BLOCK4 :: "8 word" where "ATTRIB_BLOCK4 = 245"
definition ATTRIB_EXPRLOC :: "8 word" where "ATTRIB_EXPRLOC = 246"
definition ATTRIB_LEB128 :: "8 word" where "ATTRIB_LEB128 = 247"
definition ATTRIB_STRING :: "8 word" where "ATTRIB_STRING = 248"
definition ATTRIB_SIBLING_REF1 :: "8 word" where "ATTRIB_SIBLING_REF1 = 249"
definition ATTRIB_SIBLING_REF2 :: "8 word" where "ATTRIB_SIBLING_REF2 = 250"
definition ATTRIB_SIBLING_REF4 :: "8 word" where "ATTRIB_SIBLING_REF4 = 251"
definition ATTRIB_SIBLING_REF8 :: "8 word" where "ATTRIB_SIBLING_REF8 = 252"
definition ATTRIB_SIBLING_REF_UDATA :: "8 word" where "ATTRIB_SIBLING_REF_UDATA = 253"
definition ATTRIB_NAME_STRP :: "8 word" where "ATTRIB_NAME_STRP = 254"
definition ATTRIB_NAME_STRING :: "8 word" where "ATTRIB_NAME_STRING = 255"
definition ATTRIB_MIN_CMD :: "8 word" where "ATTRIB_MIN_CMD = ATTRIB_BLOCK1"

lemmas ATTRIB_defs =
  ATTRIB_BLOCK1_def ATTRIB_BLOCK2_def ATTRIB_BLOCK4_def ATTRIB_EXPRLOC_def
  ATTRIB_LEB128_def ATTRIB_STRING_def ATTRIB_SIBLING_REF1_def ATTRIB_SIBLING_REF2_def
  ATTRIB_SIBLING_REF4_def ATTRIB_SIBLING_REF8_def ATTRIB_SIBLING_REF_UDATA_def
  ATTRIB_NAME_STRP_def ATTRIB_NAME_STRING_def ATTRIB_MIN_CMD_def

text \<open>
  \<open>struct abbrev_decl\<close> and \<open>struct compilation_unit\<close>. The buffer \<open>cmds\<close> is the
  list of the bytes written into it; the vector \<open>abbrev_decls\<close> is a list and
  \<open>num_abbrev_decls\<close> its length. Allocation is assumed to succeed: the capacities of
  the two growing buffers and the \<open>PyErr_NoMemory\<close> returns of \<open>malloc\<close> and
  \<open>realloc\<close> are not modelled. The back pointer \<open>file\<close> is left out.
\<close>

record abbrev_decl =
  cmds :: "8 word list"

record compilation_unit =
  cu_ptr :: nat
  unit_length :: "64 word"
  version :: "16 word"
  debug_abbrev_offset :: "64 word"
  address_size :: "8 word"
  is_64_bit :: bool
  abbrev_decls :: "abbrev_decl list"

text \<open>
  The first \<open>if\<close> chain of the attribute loop. \<open>special_cmd\<close> is the command of the
  branches that jump to \<open>append_cmd\<close>; \<open>next_tag\<close> is the tag after the chain, zeroed
  by a \<open>DW_AT_declaration\<close> attribute unless the tag is \<open>DW_TAG_variable\<close>.
\<close>

definition special_cmd :: "64 word \<Rightarrow> 64 word \<Rightarrow> 64 word \<Rightarrow> 8 word option" where
  "special_cmd name form tag =
     (if name = DW_AT_sibling then
        (if form = DW_FORM_ref1 then Some ATTRIB_SIBLING_REF1
         else if form = DW_FORM_ref2 then Some ATTRIB_SIBLING_REF2
         else if form = DW_FORM_ref4 then Some ATTRIB_SIBLING_REF4
         else if form = DW_FORM_ref8 then Some ATTRIB_SIBLING_REF8
         else if form = DW_FORM_ref_udata then Some ATTRIB_SIBLING_REF_UDATA
         else None)
      else if name = DW_AT_name \<and> tag \<noteq> 0 then
        (if form = DW_FORM_strp then Some ATTRIB_NAME_STRP
         else if form = DW_FORM_string then Some ATTRIB_NAME_STRING
         else None)
      else None)"

definition next_tag :: "64 word \<Rightarrow> 64 word \<Rightarrow> 64 word" where
  "next_tag name tag =
     (if name = DW_AT_sibling then tag
      else if name = DW_AT_name \<and> tag \<noteq> 0 then tag
      else if name = DW_AT_declaration \<and> tag \<noteq> DW_TAG_variable then 0
      else tag)"

text \<open>
  The \<open>switch\<close> on the form: a fixed-length skip that goes through coalescing, a
  command appended as it is, nothing (\<open>DW_FORM_flag_present\<close>), or an error.
\<close>

datatype form_action = Skip "8 word" | Append "8 word" | Nothing | Fail error

definition form_cmd :: "compilation_unit \<Rightarrow> 64 word \<Rightarrow> form_action" where
  "form_cmd cu form =
     (if form = DW_FORM_addr then Skip (address_size cu)
      else if form = DW_FORM_data1 \<or> form = DW_FORM_ref1 \<or> form = DW_FORM_flag then Skip 1
      else if form = DW_FORM_data2 \<or> form = DW_FORM_ref2 then Skip 2
      else if form = DW_FORM_data4 \<or> form = DW_FORM_ref4 then Skip 4
      else if form = DW_FORM_data8 \<or> form = DW_FORM_ref8 \<or> form = DW_FORM_ref_sig8 then Skip 8
      else if form = DW_FORM_block1 then Append ATTRIB_BLOCK1
      else if form = DW_FORM_block2 then Append ATTRIB_BLOCK2
      else if form = DW_FORM_block4 then Append ATTRIB_BLOCK4
      else if form = DW_FORM_exprloc then Append ATTRIB_EXPRLOC
      else if form = DW_FORM_sdata \<or> form = DW_FORM_udata \<or> form = DW_FORM_ref_udata
        then Append ATTRIB_LEB128
      else if form = DW_FORM_ref_addr \<or> form = DW_FORM_sec_offset \<or> form = DW_FORM_strp
        then Skip (if is_64_bit cu then 8 else 4)
      else if form = DW_FORM_string then Append ATTRIB_STRING
      else if form = DW_FORM_flag_present then Nothing
      else if form = DW_FORM_indirect
        then Fail (NotImplementedError ''DW_FORM_indirect is not implemented'')
      else Fail (DwarfFormatError ''unknown attribute form''))"

text \<open>
  Coalescing: a fixed-length skip \<open>cmd\<close> after the commands written so far. The sum
  \<open>(uint16_t)prev + cmd\<close> is computed without wrap-around.
\<close>

definition emit_skip :: "8 word list \<Rightarrow> 8 word \<Rightarrow> 8 word list" where
  "emit_skip cs cmd =
     (if cs \<noteq> [] \<and> last cs < ATTRIB_MIN_CMD then
        (if unat (last cs) + unat cmd < unat ATTRIB_MIN_CMD
         then butlast cs @ [last cs + cmd]
         else butlast cs @ [ATTRIB_MIN_CMD - 1,
                            word_of_nat (unat (last cs) + unat cmd - unat ATTRIB_MIN_CMD + 1)])
      else cs @ [cmd])"

text \<open>The body of the attribute loop, after \<open>name\<close> and \<open>form\<close> were read.\<close>

definition compile_attrib ::
  "compilation_unit \<Rightarrow> 64 word \<Rightarrow> 8 word list \<Rightarrow> 64 word \<Rightarrow> 64 word
     \<Rightarrow> error + (64 word \<times> 8 word list)" where
  "compile_attrib cu tag cs name form =
     (case special_cmd name form tag of
        Some cmd \<Rightarrow> Inr (tag, cs @ [cmd])
      | None \<Rightarrow>
         (case form_cmd cu form of
            Skip cmd \<Rightarrow> Inr (next_tag name tag, emit_skip cs cmd)
          | Append cmd \<Rightarrow> Inr (next_tag name tag, cs @ [cmd])
          | Nothing \<Rightarrow> Inr (next_tag name tag, cs)
          | Fail e \<Rightarrow> Inl e))"

subsection \<open>Reading an abbreviation declaration\<close>

text \<open>
  A successful read moves the pointer forward and not past the end; the loops below
  terminate because of it.
\<close>

lemma read_uleb128_loop_advances:
  "read_uleb128_loop mem ptr endp shift val = Inr (v, p') \<Longrightarrow> ptr < p' \<and> p' \<le> endp"
proof (induction mem ptr endp shift val rule: read_uleb128_loop.induct)
  case (1 mem ptr endp shift val)
  show ?case
  proof (cases "ptr \<ge> endp")
    case True
    then show ?thesis using "1.prems" by (subst (asm) read_uleb128_loop.simps) simp
  next
    case False
    show ?thesis
    proof (cases "mem ptr AND 0x80 = 0")
      case True
      then show ?thesis using "1.prems" False
        by (subst (asm) read_uleb128_loop.simps) (auto simp: Let_def split: if_splits)
    next
      case nc: False
      have ns: "\<not> (shift = 63 \<and> mem ptr > 1)"
        using "1.prems" False by (subst (asm) read_uleb128_loop.simps) (auto simp: Let_def split: if_splits)
      have "read_uleb128_loop mem (ptr + 1) endp (shift + 7)
              (val OR push_bit shift (ucast (mem ptr AND 0x7f))) = Inr (v, p')"
        using "1.prems" False nc ns
        by (subst (asm) read_uleb128_loop.simps) (simp add: Let_def)
      from "1.IH"[OF False refl refl ns refl nc this] show ?thesis by simp
    qed
  qed
qed

lemma read_uleb128_advances:
  "read_uleb128 mem ptr endp = Inr (v, p') \<Longrightarrow> ptr < p' \<and> p' \<le> endp"
  unfolding read_uleb128_def by (rule read_uleb128_loop_advances)

lemma read_u8_advances:
  "read_u8 mem ptr endp = Inr (v, p') \<Longrightarrow> ptr < p' \<and> p' \<le> endp"
  by (auto simp: read_u8_def in_bounds_def split: if_splits)

text \<open>
  The attribute loop of \<open>read_abbrev_decl\<close>: pairs of ULEB128 numbers \<open>name\<close>,
  \<open>form\<close> up to the pair \<open>(0, 0)\<close>. The state is the filtered tag and the commands
  written so far.
\<close>

function read_attribs ::
  "memory \<Rightarrow> nat \<Rightarrow> nat \<Rightarrow> compilation_unit \<Rightarrow> 64 word \<Rightarrow> 8 word list
     \<Rightarrow> error + (nat \<times> 64 word \<times> 8 word list)" where
  "read_attribs mem ptr endp cu tag cs =
     (case read_uleb128 mem ptr endp of
        Inl e \<Rightarrow> Inl e
      | Inr (name, p1) \<Rightarrow>
         (case read_uleb128 mem p1 endp of
            Inl e \<Rightarrow> Inl e
          | Inr (form, p2) \<Rightarrow>
             if name = 0 \<and> form = 0 then Inr (p2, tag, cs)
             else
               (case compile_attrib cu tag cs name form of
                  Inl e \<Rightarrow> Inl e
                | Inr (tag', cs') \<Rightarrow> read_attribs mem p2 endp cu tag' cs')))"
  by pat_completeness auto
termination
  apply (relation "measure (\<lambda>(mem, ptr, endp, cu, tag, cs). endp - ptr)")
   apply simp
  apply (auto dest!: read_uleb128_advances sym[of "Inr _" "read_uleb128 _ _ _"])
  done

declare read_attribs.simps [simp del]

definition filter_tag :: "64 word \<Rightarrow> 64 word" where
  "filter_tag tag =
     (if tag \<noteq> DW_TAG_base_type \<and> tag \<noteq> DW_TAG_class_type
         \<and> tag \<noteq> DW_TAG_enumeration_type \<and> tag \<noteq> DW_TAG_structure_type
         \<and> tag \<noteq> DW_TAG_typedef \<and> tag \<noteq> DW_TAG_union_type
         \<and> tag \<noteq> DW_TAG_variable
      then 0 else tag)"

text \<open>
  \<open>read_abbrev_decl\<close>. The result \<open>Inr None\<close> is the return value 0 (the code 0 that
  ends the table), \<open>Inr (Some (ptr', cu'))\<close> the return value 1 with the advanced
  pointer and the unit holding the new declaration, \<open>Inl\<close> the return value -1.
\<close>

definition read_abbrev_decl ::
  "memory \<Rightarrow> nat \<Rightarrow> nat \<Rightarrow> compilation_unit
     \<Rightarrow> error + (nat \<times> compilation_unit) option" where
  "read_abbrev_decl mem ptr endp cu =
     (case read_uleb128 mem ptr endp of
        Inl e \<Rightarrow> Inl e
      | Inr (code, p1) \<Rightarrow>
         if code = 0 then Inr None
         else if unat code \<noteq> length (abbrev_decls cu) + 1
         then Inl (NotImplementedError ''abbreviation table is not sequential'')
         else
           (case read_uleb128 mem p1 endp of
              Inl e \<Rightarrow> Inl e
            | Inr (tag, p2) \<Rightarrow>
               (case read_u8 mem p2 endp of
                  Inl e \<Rightarrow> Inl e
                | Inr (children, p3) \<Rightarrow>
                   (case read_attribs mem p3 endp cu (filter_tag tag) [] of
                      Inl e \<Rightarrow> Inl e
                    | Inr (p4, tag', cs) \<Rightarrow>
                       Inr (Some (p4,
                         cu\<lparr>abbrev_decls := abbrev_decls cu
                               @ [\<lparr>cmds = cs @ [0, ucast tag', children]\<rparr>]\<rparr>))))))"

lemma read_attribs_advances:
  "read_attribs mem ptr endp cu tag cs = Inr (p', tag', cs') \<Longrightarrow> ptr < p' \<and> p' \<le> endp"
proof (induction mem ptr endp cu tag cs rule: read_attribs.induct)
  case (1 mem ptr endp cu tag cs)
  from "1.prems" obtain name p1 where r1: "read_uleb128 mem ptr endp = Inr (name, p1)"
    by (subst (asm) read_attribs.simps) (auto split: sum.splits)
  from "1.prems" r1 obtain form p2 where r2: "read_uleb128 mem p1 endp = Inr (form, p2)"
    by (subst (asm) read_attribs.simps) (auto split: sum.splits)
  from read_uleb128_advances[OF r1] read_uleb128_advances[OF r2]
  have adv: "ptr < p2" "p2 \<le> endp" by simp_all
  show ?case
  proof (cases "name = 0 \<and> form = 0")
    case True
    then have "p' = p2" using "1.prems" r1 r2
      by (subst (asm) read_attribs.simps) simp
    with adv show ?thesis by simp
  next
    case False
    from "1.prems" r1 r2 False obtain t c where
      c: "compile_attrib cu tag cs name form = Inr (t, c)"
      and rest: "read_attribs mem p2 endp cu t c = Inr (p', tag', cs')"
      by (subst (asm) read_attribs.simps) (auto split: sum.splits)
    from "1.IH"[OF r1 refl r2 refl False c refl rest] adv
    show ?thesis by simp
  qed
qed

lemma read_abbrev_decl_advances:
  assumes "read_abbrev_decl mem ptr endp cu = Inr (Some (p', cu'))"
  shows "ptr < p' \<and> p' \<le> endp"
proof -
  from assms obtain code p1 where r1: "read_uleb128 mem ptr endp = Inr (code, p1)"
    by (auto simp: read_abbrev_decl_def split: sum.splits)
  from assms r1 obtain tag p2 where r2: "read_uleb128 mem p1 endp = Inr (tag, p2)"
    by (auto simp: read_abbrev_decl_def split: sum.splits if_splits)
  from assms r1 r2 obtain children p3 where r3: "read_u8 mem p2 endp = Inr (children, p3)"
    by (auto simp: read_abbrev_decl_def split: sum.splits if_splits)
  from assms r1 r2 r3 obtain t c where
    r4: "read_attribs mem p3 endp cu (filter_tag tag) [] = Inr (p', t, c)"
    by (auto simp: read_abbrev_decl_def split: sum.splits if_splits)
  from read_uleb128_advances[OF r1] read_uleb128_advances[OF r2] read_u8_advances[OF r3]
    read_attribs_advances[OF r4]
  show ?thesis by simp
qed

text \<open>
  \<open>read_abbrev_table\<close>: the table of the unit starts empty and declarations are read
  until \<open>read_abbrev_decl\<close> returns 0 or fails.
\<close>

function read_abbrev_table_loop ::
  "memory \<Rightarrow> nat \<Rightarrow> nat \<Rightarrow> compilation_unit \<Rightarrow> error + compilation_unit" where
  "read_abbrev_table_loop mem ptr endp cu =
     (case read_abbrev_decl mem ptr endp cu of
        Inl e \<Rightarrow> Inl e
      | Inr None \<Rightarrow> Inr cu
      | Inr (Some (ptr', cu')) \<Rightarrow> read_abbrev_table_loop mem ptr' endp cu')"
  by pat_completeness auto
termination
  apply (relation "measure (\<lambda>(mem, ptr, endp, cu). endp - ptr)")
   apply simp
  apply (auto dest!: read_abbrev_decl_advances sym[of "Inr _" "read_abbrev_decl _ _ _ _"])
  done

declare read_abbrev_table_loop.simps [simp del]

definition read_abbrev_table ::
  "memory \<Rightarrow> nat \<Rightarrow> nat \<Rightarrow> compilation_unit \<Rightarrow> error + compilation_unit" where
  "read_abbrev_table mem ptr endp cu =
     read_abbrev_table_loop mem ptr endp (cu\<lparr>abbrev_decls := []\<rparr>)"

text \<open>
  The declarations of a table in the order the loop of \<open>read_abbrev_table\<close> reads
  them, each with the code read for it. It is used to state where a declaration with a
  given code ends up.
\<close>

function abbrev_table_trace ::
  "memory \<Rightarrow> nat \<Rightarrow> nat \<Rightarrow> compilation_unit \<Rightarrow> (64 word \<times> abbrev_decl) list" where
  "abbrev_table_trace mem ptr endp cu =
     (case read_abbrev_decl mem ptr endp cu of
        Inl e \<Rightarrow> []
      | Inr None \<Rightarrow> []
      | Inr (Some (ptr', cu')) \<Rightarrow>
          (case read_uleb128 mem ptr endp of
             Inl e \<Rightarrow> []
           | Inr (code, p1) \<Rightarrow> [(code, last (abbrev_decls cu'))])
          @ abbrev_table_trace mem ptr' endp cu')"
  by pat_completeness auto
termination
  apply (relation "measure (\<lambda>(mem, ptr, endp, cu). endp - ptr)")
   apply simp
  apply (auto dest!: read_abbrev_decl_advances sym[of "Inr _" "read_abbrev_decl _ _ _ _"])
  done

declare abbrev_table_trace.simps [simp del]

subsection \<open>Attribute lists, for stating what an abbreviation compiles to\<close>

text \<open>
  The attribute specifications of a declaration as a list of pairs: the pairs
  \<open>(name, form)\<close> encoded at a position, up to the terminating \<open>(0, 0)\<close>, with the
  position after it.
\<close>

function attrib_pairs ::
  "memory \<Rightarrow> nat \<Rightarrow> nat \<Rightarrow> error + ((64 word \<times> 64 word) list \<times> nat)" where
  "attrib_pairs mem ptr endp =
     (case read_uleb128 mem ptr endp of
        Inl e \<Rightarrow> Inl e
      | Inr (name, p1) \<Rightarrow>
         (case read_uleb128 mem p1 endp of
            Inl e \<Rightarrow> Inl e
          | Inr (form, p2) \<Rightarrow>
             if name = 0 \<and> form = 0 then Inr ([], p2)
             else
               (case attrib_pairs mem p2 endp of
                  Inl e \<Rightarrow> Inl e
                | Inr (ps, p') \<Rightarrow> Inr ((name, form) # ps, p'))))"
  by pat_completeness auto
termination
  apply (relation "measure (\<lambda>(mem, ptr, endp). endp - ptr)")
   apply simp
  apply (auto dest!: read_uleb128_advances sym[of "Inr _" "read_uleb128 _ _ _"])
  done

declare attrib_pairs.simps [simp del]

text \<open>The loop body applied to a list of pairs in turn.\<close>

fun compile_attribs ::
  "compilation_unit \<Rightarrow> 64 word \<Rightarrow> 8 word list \<Rightarrow> (64 word \<times> 64 word) list
     \<Rightarrow> error + (64 word \<times> 8 word list)" where
  "compile_attribs cu tag cs [] = Inr (tag, cs)"
| "compile_attribs cu tag cs ((name, form) # ps) =
     (case compile_attrib cu tag cs name form of
        Inl e \<Rightarrow> Inl e
      | Inr (tag', cs') \<Rightarrow> compile_attribs cu tag' cs' ps)"

text \<open>
  A pair is a fixed-size skip of \<open>n\<close> bytes when it is not one of the sibling or name
  attributes that have a command of their own and its form has a fixed length.
  \<open>skips_total\<close> is the sum of the sizes of a list of fixed-size skips, with the tag
  after them; it is \<open>None\<close> when a pair of the list is not a fixed-size skip.
\<close>

definition skip_size :: "compilation_unit \<Rightarrow> 64 word \<Rightarrow> 64 word \<Rightarrow> 64 word \<Rightarrow> 8 word option" where
  "skip_size cu tag name form =
     (case special_cmd name form tag of
        Some c \<Rightarrow> None
      | None \<Rightarrow> (case form_cmd cu form of Skip n \<Rightarrow> Some n | _ \<Rightarrow> None))"

fun skips_total ::
  "compilation_unit \<Rightarrow> 64 word \<Rightarrow> (64 word \<times> 64 word) list \<Rightarrow> (nat \<times> 64 word) option" where
  "skips_total cu tag [] = Some (0, tag)"
| "skips_total cu tag ((name, form) # ps) =
     (case skip_size cu tag name form of
        None \<Rightarrow> None
      | Some n \<Rightarrow>
         (case skips_total cu (next_tag name tag) ps of
            None \<Rightarrow> None
          | Some (s, t) \<Rightarrow> Some (unat n + s, t)))"

subsection \<open>Small abbreviation tables used as concrete inputs\<close>

text \<open>
  A unit of DWARF version 4 in the 32-bit format with 8-byte addresses, and a table with
  two declarations: code 1, \<open>DW_TAG_variable\<close>, no children, attributes
  \<open>(DW_AT_name, DW_FORM_strp)\<close> and \<open>(DW_AT_type, DW_FORM_ref4)\<close>; code 2,
  \<open>DW_TAG_structure_type\<close>, with children, attribute \<open>(DW_AT_name, DW_FORM_string)\<close>.
  The second table starts with code 2.
\<close>

definition example_cu :: compilation_unit where
  "example_cu = \<lparr> cu_ptr = 0, unit_length = 0, version = 4, debug_abbrev_offset = 0,
                   address_size = 8, is_64_bit = False, abbrev_decls = [] \<rparr>"

definition example_table :: "8 word list" where
  "example_table =
     [0x01, 0x34, 0x00,  0x03, 0x0e,  0x49, 0x13,  0x00, 0x00,
      0x02, 0x13, 0x01,  0x03, 0x08,  0x00, 0x00,
      0x00]"

definition gap_table :: "8 word list" where
  "gap_table = [0x02, 0x34, 0x00,  0x00, 0x00,  0x00]"

text \<open>
  The attribute specifications of an abbreviation with ten fixed-size attributes, of 8, 8,
  8, 8, 4, 4, 2, 2, 1 and 1 bytes, followed by an attribute of form \<open>DW_FORM_udata\<close>.
\<close>

definition ten_skips :: "(64 word \<times> 64 word) list" where
  "ten_skips =
     [(0x11, 0x01), (0x12, 0x07), (0x1c, 0x14), (0x2c, 0x20), (0x10, 0x17),
      (0x49, 0x13), (0x3a, 0x05), (0x3b, 0x12), (0x3e, 0x0b), (0x3f, 0x0c)]"

definition ten_skips_bytes :: "8 word list" where
  "ten_skips_bytes =
     [0x11, 0x01,  0x12, 0x07,  0x1c, 0x14,  0x2c, 0x20,  0x10, 0x17,
      0x49, 0x13,  0x3a, 0x05,  0x3b, 0x12,  0x3e, 0x0b,  0x3f, 0x0c,
      0x0b, 0x0f,  0x00, 0x00]"

section \<open>The name hash table\<close>

text \<open>
  A hash entry holds pointers: to the name, to the unit and to the DIE. The name is used
  through \<open>name_hash\<close> and \<open>strcmp\<close> only, so the model keeps the string the pointer
  points to (the bytes before the terminating NUL, none of them zero) instead of the
  pointer; the mapped bytes of a name are not written after the entry is made. The unit is identified by
  the address of its header, \<open>cu->ptr\<close>. A slot whose \<open>name\<close> is \<open>NULL\<close> is
  \<open>None\<close>.
\<close>

record die_hash_entry =
  e_name :: "8 word list"
  e_tag :: "64 word"
  e_cu :: nat
  e_ptr :: nat

text \<open>
  The indices \<open>i\<close> and \<open>orig_i\<close> are \<open>uint32_t\<close> values that are always masked with
  \<open>DIE_HASH_MASK\<close>, that is, numbers of \<open>DIE_HASH_SHIFT = 17\<close> bits. They are modelled
  as 17-bit words, on which \<open>i + 1\<close> wraps around as \<open>(i + 1) & DIE_HASH_MASK\<close> does.
  The table \<open>die_hash[DIE_HASH_SIZE]\<close> has one slot for each of them.
\<close>

type_synonym die_hash = "17 word \<Rightarrow> die_hash_entry option"

definition DIE_HASH_SIZE :: nat where
  "DIE_HASH_SIZE = 2 ^ 17"

definition DIE_HASH_MASK :: "32 word" where
  "DIE_HASH_MASK = 2 ^ 17 - 1"

definition name_hash :: "8 word list \<Rightarrow> 32 word" where
  "name_hash nm = fold (\<lambda>b hash. (push_bit 5 hash + hash) + ucast b) nm 5381"

definition hash_index :: "8 word list \<Rightarrow> 17 word" where
  "hash_index nm = ucast (name_hash nm AND DIE_HASH_MASK)"

definition slot_matches :: "die_hash_entry \<Rightarrow> 8 word list \<Rightarrow> 64 word \<Rightarrow> bool" where
  "slot_matches entry nm tag = (e_tag entry = tag \<and> e_name entry = nm)"

lemma unat_pred_less:
  fixes x :: "17 word"
  assumes "x \<noteq> 0"
  shows "unat (x - 1) < unat x"
proof -
  have "unat (x - 1) = unat x - 1" using assms by (rule unat_minus_one)
  moreover have "0 < unat x" using assms by (simp add: unat_gt_0)
  ultimately show ?thesis by arith
qed

lemma probe_measure:
  fixes i orig_i :: "17 word"
  assumes "i + 1 \<noteq> orig_i"
  shows "unat (orig_i - i - 2) < unat (orig_i - i - 1)"
proof -
  have "orig_i - i - 1 \<noteq> 0" using assms by (simp add: algebra_simps)
  from unat_pred_less[OF this] have "unat (orig_i - i - 1 - 1) < unat (orig_i - i - 1)" .
  moreover have "orig_i - i - 2 = orig_i - i - 1 - 1" by simp
  ultimately show ?thesis by (simp only:)
qed

text \<open>The loop of \<open>add_die_hash_entry\<close>; a full table is an out-of-memory error.\<close>

function add_die_hash_entry_loop ::
  "die_hash \<Rightarrow> 8 word list \<Rightarrow> 64 word \<Rightarrow> nat \<Rightarrow> nat \<Rightarrow> 17 word \<Rightarrow> 17 word
     \<Rightarrow> error + die_hash" where
  "add_die_hash_entry_loop tbl nm tag cu p orig_i i =
     (case tbl i of
        None \<Rightarrow> Inr (tbl(i \<mapsto> \<lparr> e_name = nm, e_tag = tag, e_cu = cu, e_ptr = p \<rparr>))
      | Some entry \<Rightarrow>
          if e_tag entry = tag \<and> e_name entry = nm then Inr tbl
          else if i + 1 = orig_i then Inl MemoryError
          else add_die_hash_entry_loop tbl nm tag cu p orig_i (i + 1))"
  by pat_completeness auto
termination
  apply (relation "measure (\<lambda>(tbl, nm, tag, cu, p, orig_i, i). unat (orig_i - i - 1))")
   apply simp
  apply (simp add: probe_measure)
  done

declare add_die_hash_entry_loop.simps [simp del]

definition add_die_hash_entry ::
  "die_hash \<Rightarrow> 8 word list \<Rightarrow> 64 word \<Rightarrow> nat \<Rightarrow> nat \<Rightarrow> error + die_hash" where
  "add_die_hash_entry tbl nm tag cu p =
     add_die_hash_entry_loop tbl nm tag cu p (hash_index nm) (hash_index nm)"

text \<open>
  The loop of \<open>DwarfIndex_find\<close>. The result is the entry found, from which the code
  computes the offsets it hands to the collaborating objects.
\<close>

function find_loop ::
  "die_hash \<Rightarrow> 8 word list \<Rightarrow> 64 word \<Rightarrow> 17 word \<Rightarrow> 17 word \<Rightarrow> die_hash_entry option" where
  "find_loop tbl nm tag orig_i i =
     (case tbl i of
        None \<Rightarrow> None
      | Some entry \<Rightarrow>
          if e_tag entry = tag \<and> e_name entry = nm then Some entry
          else if i + 1 = orig_i then None
          else find_loop tbl nm tag orig_i (i + 1))"
  by pat_completeness auto
termination
  apply (relation "measure (\<lambda>(tbl, nm, tag, orig_i, i). unat (orig_i - i - 1))")
   apply simp
  apply (simp add: probe_measure)
  done

declare find_loop.simps [simp del]

definition DwarfIndex_find :: "die_hash \<Rightarrow> 8 word list \<Rightarrow> 64 word \<Rightarrow> error + die_hash_entry" where
  "DwarfIndex_find tbl nm tag =
     (case find_loop tbl nm tag (hash_index nm) (hash_index nm) of
        None \<Rightarrow> Inl (ValueError ''DIE not found'')
      | Some entry \<Rightarrow> Inr entry)"

text \<open>
  Construction inserts into one table, zero-initialised with the object, and stops at
  the first failure. \<open>add_entries\<close> is a sequence of successful or failing calls of
  \<open>add_die_hash_entry\<close>, in the order construction makes them.
\<close>

definition empty_die_hash :: die_hash where
  "empty_die_hash = (\<lambda>i. None)"

fun add_entries :: "die_hash \<Rightarrow> die_hash_entry list \<Rightarrow> error + die_hash" where
  "add_entries tbl [] = Inr tbl"
| "add_entries tbl (x # xs) =
     (case add_die_hash_entry tbl (e_name x) (e_tag x) (e_cu x) (e_ptr x) of
        Inl e \<Rightarrow> Inl e
      | Inr tbl' \<Rightarrow> add_entries tbl' xs)"

text \<open>The slots of a probe sequence before the \<open>k\<close>-th are occupied by other keys.\<close>

definition probe_passes :: "die_hash \<Rightarrow> 8 word list \<Rightarrow> 64 word \<Rightarrow> nat \<Rightarrow> nat \<Rightarrow> bool" where
  "probe_passes tbl nm tag k m =
     (\<forall>j. k \<le> j \<and> j < m \<longrightarrow>
        (\<exists>entry. tbl (hash_index nm + word_of_nat j) = Some entry \<and> \<not> slot_matches entry nm tag))"

text \<open>The invariant of the table: every stored entry is found under its own key.\<close>

definition table_inv :: "die_hash \<Rightarrow> bool" where
  "table_inv tbl =
     (\<forall>s e. tbl s = Some e \<longrightarrow>
        find_loop tbl (e_name e) (e_tag e) (hash_index (e_name e)) (hash_index (e_name e)) = Some e)"

subsection \<open>Names and entries used as concrete inputs\<close>

text \<open>
  The names \<open>foo\<close>, \<open>euyq\<close> and \<open>bar\<close> as bytes. The first two have the same hash
  index, 29577.
\<close>

definition name_foo :: "8 word list" where
  "name_foo = [0x66, 0x6f, 0x6f]"

definition name_euyq :: "8 word list" where
  "name_euyq = [0x65, 0x75, 0x79, 0x71]"

definition name_bar :: "8 word list" where
  "name_bar = [0x62, 0x61, 0x72]"

definition example_entries :: "die_hash_entry list" where
  "example_entries =
     [\<lparr> e_name = name_foo, e_tag = DW_TAG_variable, e_cu = 0, e_ptr = 11 \<rparr>,
      \<lparr> e_name = name_euyq, e_tag = DW_TAG_variable, e_cu = 0, e_ptr = 20 \<rparr>,
      \<lparr> e_name = name_foo, e_tag = DW_TAG_variable, e_cu = 64, e_ptr = 75 \<rparr>,
      \<lparr> e_name = name_foo, e_tag = DW_TAG_typedef, e_cu = 0, e_ptr = 30 \<rparr>]"

section \<open>The DIE indexer\<close>

text \<open>
  The string a \<open>char *\<close> points to: the bytes from the address up to the first NUL.
  Addresses are 64 bits wide, which bounds the search.
\<close>

function c_string :: "memory \<Rightarrow> nat \<Rightarrow> 8 word list" where
  "c_string mem p =
     (if p \<ge> 2 ^ 64 \<or> mem p = 0 then [] else mem p # c_string mem (p + 1))"
  by pat_completeness auto
termination
  by (relation "measure (\<lambda>(mem, p). 2 ^ 64 - p)") auto

declare c_string.simps [simp del]

text \<open>
  The \<open>_into_size_t\<close> readers: the value read, as a \<open>size_t\<close>, with the advanced
  pointer.
\<close>

definition read_u8_into_size_t :: "memory \<Rightarrow> nat \<Rightarrow> nat \<Rightarrow> error + (nat \<times> nat)" where
  "read_u8_into_size_t mem ptr endp =
     (case read_u8 mem ptr endp of Inl e \<Rightarrow> Inl e | Inr (v, p) \<Rightarrow> Inr (unat v, p))"

definition read_u16_into_size_t :: "memory \<Rightarrow> nat \<Rightarrow> nat \<Rightarrow> error + (nat \<times> nat)" where
  "read_u16_into_size_t mem ptr endp =
     (case read_u16 mem ptr endp of Inl e \<Rightarrow> Inl e | Inr (v, p) \<Rightarrow> Inr (unat v, p))"

definition read_u32_into_size_t :: "memory \<Rightarrow> nat \<Rightarrow> nat \<Rightarrow> error + (nat \<times> nat)" where
  "read_u32_into_size_t mem ptr endp =
     (case read_u32 mem ptr endp of Inl e \<Rightarrow> Inl e | Inr (v, p) \<Rightarrow> Inr (unat v, p))"

definition read_u64_into_size_t :: "memory \<Rightarrow> nat \<Rightarrow> nat \<Rightarrow> error + (nat \<times> nat)" where
  "read_u64_into_size_t mem ptr endp =
     (case read_u64 mem ptr endp of Inl e \<Rightarrow> Inl e | Inr (v, p) \<Rightarrow> Inr (unat v, p))"

definition read_uleb128_into_size_t :: "memory \<Rightarrow> nat \<Rightarrow> nat \<Rightarrow> error + (nat \<times> nat)" where
  "read_uleb128_into_size_t mem ptr endp =
     (case read_uleb128 mem ptr endp of Inl e \<Rightarrow> Inl e | Inr (v, p) \<Rightarrow> Inr (unat v, p))"

text \<open>The label \<open>skip\<close>: advance by \<open>n\<close> bytes if that many are left.\<close>

definition skip_bytes :: "nat \<Rightarrow> nat \<Rightarrow> nat \<Rightarrow> error + nat" where
  "skip_bytes ptr endp n = (if \<not> in_bounds ptr endp n then Inl EOFError else Inr (ptr + n))"

definition read_then_skip :: "error + (nat \<times> nat) \<Rightarrow> nat \<Rightarrow> error + nat" where
  "read_then_skip r endp = (case r of Inl e \<Rightarrow> Inl e | Inr (n, p) \<Rightarrow> skip_bytes p endp n)"

text \<open>The loop of \<open>ATTRIB_LEB128\<close>: bytes are passed over up to one with a clear high bit.\<close>

function skip_leb128 :: "memory \<Rightarrow> nat \<Rightarrow> nat \<Rightarrow> error + nat" where
  "skip_leb128 mem ptr endp =
     (if ptr \<ge> endp then Inl EOFError
      else if mem ptr AND 0x80 = 0 then Inr (ptr + 1)
      else skip_leb128 mem (ptr + 1) endp)"
  by pat_completeness auto
termination
  by (relation "measure (\<lambda>(mem, ptr, endp). endp - ptr)") auto

declare skip_leb128.simps [simp del]

text \<open>\<open>memchr(ptr, 0, end - ptr)\<close>, and the string skip built on it.\<close>

function memchr0 :: "memory \<Rightarrow> nat \<Rightarrow> nat \<Rightarrow> nat option" where
  "memchr0 mem ptr endp =
     (if ptr \<ge> endp then None
      else if mem ptr = 0 then Some ptr
      else memchr0 mem (ptr + 1) endp)"
  by pat_completeness auto
termination
  by (relation "measure (\<lambda>(mem, ptr, endp). endp - ptr)") auto

declare memchr0.simps [simp del]

definition skip_string :: "memory \<Rightarrow> nat \<Rightarrow> nat \<Rightarrow> error + nat" where
  "skip_string mem ptr endp =
     (if ptr \<ge> endp then Inl EOFError
      else case memchr0 mem ptr endp of
             None \<Rightarrow> Inl EOFError
           | Some nul \<Rightarrow> Inr (nul + 1))"

text \<open>The label \<open>sibling_ref\<close>.\<close>

definition sibling_ref ::
  "compilation_unit \<Rightarrow> nat \<Rightarrow> error + (nat \<times> nat) \<Rightarrow> error + (nat \<times> nat)" where
  "sibling_ref cu endp r =
     (case r of
        Inl e \<Rightarrow> Inl e
      | Inr (tmp, p) \<Rightarrow>
          if \<not> in_bounds (cu_ptr cu) endp tmp then Inl EOFError
          else Inr (cu_ptr cu + tmp, p))"

text \<open>
  One command of an abbreviation, executed on the state of the walk through a DIE: the
  pointer, the name pointer and the sibling pointer (\<open>None\<close> for \<open>NULL\<close>).
\<close>

type_synonym die_walk = "nat \<times> nat option \<times> nat option"

definition exec_cmd ::
  "memory \<Rightarrow> compilation_unit \<Rightarrow> nat \<Rightarrow> elf_section \<Rightarrow> 8 word \<Rightarrow> die_walk \<Rightarrow> error + die_walk" where
  "exec_cmd mem cu endp debug_str cmd w =
     (case w of (ptr, name, sibling) \<Rightarrow>
        if cmd = ATTRIB_BLOCK1 then
          (case read_then_skip (read_u8_into_size_t mem ptr endp) endp of
             Inl e \<Rightarrow> Inl e | Inr p \<Rightarrow> Inr (p, name, sibling))
        else if cmd = ATTRIB_BLOCK2 then
          (case read_then_skip (read_u16_into_size_t mem ptr endp) endp of
             Inl e \<Rightarrow> Inl e | Inr p \<Rightarrow> Inr (p, name, sibling))
        else if cmd = ATTRIB_BLOCK4 then
          (case read_then_skip (read_u32_into_size_t mem ptr endp) endp of
             Inl e \<Rightarrow> Inl e | Inr p \<Rightarrow> Inr (p, name, sibling))
        else if cmd = ATTRIB_EXPRLOC then
          (case read_then_skip (read_uleb128_into_size_t mem ptr endp) endp of
             Inl e \<Rightarrow> Inl e | Inr p \<Rightarrow> Inr (p, name, sibling))
        else if cmd = ATTRIB_LEB128 then
          (case skip_leb128 mem ptr endp of
             Inl e \<Rightarrow> Inl e | Inr p \<Rightarrow> Inr (p, name, sibling))
        else if cmd = ATTRIB_NAME_STRING then
          (case skip_string mem ptr endp of
             Inl e \<Rightarrow> Inl e | Inr p \<Rightarrow> Inr (p, Some ptr, sibling))
        else if cmd = ATTRIB_STRING then
          (case skip_string mem ptr endp of
             Inl e \<Rightarrow> Inl e | Inr p \<Rightarrow> Inr (p, name, sibling))
        else if cmd = ATTRIB_SIBLING_REF1 then
          (case sibling_ref cu endp (read_u8_into_size_t mem ptr endp) of
             Inl e \<Rightarrow> Inl e | Inr (s, p) \<Rightarrow> Inr (p, name, Some s))
        else if cmd = ATTRIB_SIBLING_REF2 then
          (case sibling_ref cu endp (read_u16_into_size_t mem ptr endp) of
             Inl e \<Rightarrow> Inl e | Inr (s, p) \<Rightarrow> Inr (p, name, Some s))
        else if cmd = ATTRIB_SIBLING_REF4 then
          (case sibling_ref cu endp (read_u32_into_size_t mem ptr endp) of
             Inl e \<Rightarrow> Inl e | Inr (s, p) \<Rightarrow> Inr (p, name, Some s))
        else if cmd = ATTRIB_SIBLING_REF8 then
          (case sibling_ref cu endp (read_u64_into_size_t mem ptr endp) of
             Inl e \<Rightarrow> Inl e | Inr (s, p) \<Rightarrow> Inr (p, name, Some s))
        else if cmd = ATTRIB_SIBLING_REF_UDATA then
          (case sibling_ref cu endp (read_uleb128_into_size_t mem ptr endp) of
             Inl e \<Rightarrow> Inl e | Inr (s, p) \<Rightarrow> Inr (p, name, Some s))
        else if cmd = ATTRIB_NAME_STRP then
          (case (if is_64_bit cu then read_u64_into_size_t mem ptr endp
                 else read_u32_into_size_t mem ptr endp) of
             Inl e \<Rightarrow> Inl e
           | Inr (tmp, p) \<Rightarrow>
               if \<not> in_bounds (buffer debug_str)
                      (buffer debug_str + unat (size_sec debug_str)) tmp
               then Inl EOFError
               else Inr (p, Some (buffer debug_str + tmp), sibling))
        else
          (case skip_bytes ptr endp (unat cmd) of
             Inl e \<Rightarrow> Inl e | Inr p \<Rightarrow> Inr (p, name, sibling)))"

text \<open>
  The loop \<open>while ((cmd = *cmdp++))\<close> over the commands of a declaration. The result
  holds the bytes that follow the zero command. A buffer written by
  \<open>read_abbrev_decl\<close> always has a zero command and two bytes after it; on a list
  without a zero command the model stops at its end.
\<close>

fun run_cmds ::
  "memory \<Rightarrow> compilation_unit \<Rightarrow> nat \<Rightarrow> elf_section \<Rightarrow> 8 word list \<Rightarrow> die_walk
     \<Rightarrow> error + (die_walk \<times> 8 word list)" where
  "run_cmds mem cu endp debug_str [] w = Inr (w, [])"
| "run_cmds mem cu endp debug_str (cmd # rest) w =
     (if cmd = 0 then Inr (w, rest)
      else case exec_cmd mem cu endp debug_str cmd w of
             Inl e \<Rightarrow> Inl e
           | Inr w' \<Rightarrow> run_cmds mem cu endp debug_str rest w')"

text \<open>The byte \<open>cmdp[k]\<close> after the zero command (0 beyond the list, never read there).\<close>

definition cmd_byte :: "8 word list \<Rightarrow> nat \<Rightarrow> 8 word" where
  "cmd_byte rest k = (if k < length rest then rest ! k else 0)"

text \<open>
  One iteration of the loop of \<open>index_cu\<close>: the result is \<open>Done\<close> when the loop is
  left by \<open>break\<close>, and \<open>Continue\<close> with the pointer and the depth of the next
  iteration otherwise, each with the hash table. \<open>depth\<close> is an \<open>unsigned int\<close>.
\<close>

datatype step_result = Done die_hash | Continue nat "32 word" die_hash

definition index_cu_step ::
  "memory \<Rightarrow> elf_section \<Rightarrow> compilation_unit \<Rightarrow> nat \<Rightarrow> die_hash \<Rightarrow> nat \<Rightarrow> 32 word
     \<Rightarrow> error + step_result" where
  "index_cu_step mem debug_str cu endp tbl ptr depth =
     (case read_uleb128 mem ptr endp of
        Inl e \<Rightarrow> Inl e
      | Inr (code, p1) \<Rightarrow>
          if code = 0 then
            (if depth - 1 = 0 then Inr (Done tbl) else Inr (Continue p1 (depth - 1) tbl))
          else if code < 1 \<or> unat code > length (abbrev_decls cu)
          then Inl (DwarfFormatError ''unknown abbreviation code'')
          else
            (case run_cmds mem cu endp debug_str
                    (cmds (abbrev_decls cu ! (unat code - 1))) (p1, None, None) of
               Inl e \<Rightarrow> Inl e
             | Inr ((p2, name, sibling), rest) \<Rightarrow>
                 let tag = cmd_byte rest 0;
                     children = cmd_byte rest 1
                 in
                   (case (case name of
                            None \<Rightarrow> Inr tbl
                          | Some n \<Rightarrow>
                              if depth = 1 \<and> tag \<noteq> 0
                              then add_die_hash_entry tbl (c_string mem n) (ucast tag)
                                     (cu_ptr cu) ptr
                              else Inr tbl) of
                      Inl e \<Rightarrow> Inl e
                    | Inr tbl' \<Rightarrow>
                        if children \<noteq> 0 then
                          (case sibling of
                             Some s \<Rightarrow> Inr (Continue s depth tbl')
                           | None \<Rightarrow> Inr (Continue p2 (depth + 1) tbl'))
                        else if depth = 0 then Inr (Done tbl')
                        else Inr (Continue p2 depth tbl'))))"

text \<open>
  The loop \<open>for (;;)\<close> of \<open>index_cu\<close> may not terminate. It is run with fuel, one
  unit for each iteration: \<open>None\<close> means that the fuel did not suffice.
\<close>

fun index_cu_loop ::
  "nat \<Rightarrow> memory \<Rightarrow> elf_section \<Rightarrow> compilation_unit \<Rightarrow> nat \<Rightarrow> die_hash \<Rightarrow> nat \<Rightarrow> 32 word
     \<Rightarrow> (error + die_hash) option" where
  "index_cu_loop 0 mem debug_str cu endp tbl ptr depth = None"
| "index_cu_loop (Suc n) mem debug_str cu endp tbl ptr depth =
     (case index_cu_step mem debug_str cu endp tbl ptr depth of
        Inl e \<Rightarrow> Some (Inl e)
      | Inr (Done tbl') \<Rightarrow> Some (Inr tbl')
      | Inr (Continue ptr' depth' tbl') \<Rightarrow>
          index_cu_loop n mem debug_str cu endp tbl' ptr' depth')"

definition cu_end :: "compilation_unit \<Rightarrow> nat" where
  "cu_end cu = cu_ptr cu + unat ((if is_64_bit cu then 12 else 4) + unit_length cu)"

definition index_cu ::
  "nat \<Rightarrow> memory \<Rightarrow> elf_section \<Rightarrow> compilation_unit \<Rightarrow> die_hash \<Rightarrow> (error + die_hash) option" where
  "index_cu fuel mem debug_str cu tbl =
     index_cu_loop fuel mem debug_str cu (cu_end cu) tbl
       (cu_ptr cu + (if is_64_bit cu then 23 else 11)) 0"

section \<open>Reading the units of a file and indexing it\<close>

text \<open>
  \<open>read_compilation_unit_header\<close>. The fields it does not read (\<open>ptr\<close> and the
  abbreviation table) are set by \<open>read_cus\<close>.
\<close>

definition read_compilation_unit_header ::
  "memory \<Rightarrow> nat \<Rightarrow> nat \<Rightarrow> error + compilation_unit" where
  "read_compilation_unit_header mem ptr endp =
     (case read_u32 mem ptr endp of
        Inl e \<Rightarrow> Inl e
      | Inr (tmp, p1) \<Rightarrow>
          let is64 = (tmp = 0xffffffff) in
          (case (if is64 then read_u64 mem p1 endp else Inr (ucast tmp, p1)) of
             Inl e \<Rightarrow> Inl e
           | Inr (len, p2) \<Rightarrow>
               (case read_u16 mem p2 endp of
                  Inl e \<Rightarrow> Inl e
                | Inr (ver, p3) \<Rightarrow>
                    if ver \<noteq> 2 \<and> ver \<noteq> 3 \<and> ver \<noteq> 4
                    then Inl (DwarfFormatError ''unknown DWARF version'')
                    else
                      (case (if is64 then read_u64 mem p3 endp
                             else (case read_u32 mem p3 endp of
                                     Inl e \<Rightarrow> Inl e
                                   | Inr (v, p) \<Rightarrow> Inr (ucast v, p))) of
                         Inl e \<Rightarrow> Inl e
                       | Inr (off, p4) \<Rightarrow>
                           (case read_u8 mem p4 endp of
                              Inl e \<Rightarrow> Inl e
                            | Inr (asz, p5) \<Rightarrow>
                                Inr \<lparr> cu_ptr = ptr, unit_length = len, version = ver,
                                      debug_abbrev_offset = off, address_size = asz,
                                      is_64_bit = is64, abbrev_decls = [] \<rparr>)))))"

text \<open>
  \<open>struct file\<close>, after \<open>read_sections\<close> has found the sections: the symbol table,
  the three debug sections and their RELA sections (of size 0 when the file has none),
  and the units. The sections are byte ranges of one memory, the mapping. The field
  \<open>address_size\<close> of the index, a copy of that of the last unit read, is left out.
\<close>

record elf_file =
  f_symtab :: elf_section
  f_debug_abbrev :: elf_section
  f_debug_info :: elf_section
  f_debug_str :: elf_section
  f_rela_debug_abbrev :: elf_section
  f_rela_debug_info :: elf_section
  f_rela_debug_str :: elf_section
  f_cus :: "compilation_unit list"

text \<open>
  The loop of \<open>read_cus\<close>. The next unit starts \<open>(is_64_bit ? 12 : 4) + unit_length\<close>
  bytes further, a sum computed in 64 bits; as it can be 0, the loop is run with fuel.
\<close>

fun read_cus_loop ::
  "nat \<Rightarrow> memory \<Rightarrow> elf_file \<Rightarrow> nat \<Rightarrow> compilation_unit list
     \<Rightarrow> (error + compilation_unit list) option" where
  "read_cus_loop 0 mem f ptr acc = None"
| "read_cus_loop (Suc n) mem f ptr acc =
     (let debug_info_end = buffer (f_debug_info f) + unat (size_sec (f_debug_info f));
          debug_abbrev_end = buffer (f_debug_abbrev f) + unat (size_sec (f_debug_abbrev f))
      in
        if ptr < debug_info_end then
          (case read_compilation_unit_header mem ptr debug_info_end of
             Inl e \<Rightarrow> Some (Inl e)
           | Inr cu \<Rightarrow>
               (case read_abbrev_table mem
                       (buffer (f_debug_abbrev f) + unat (debug_abbrev_offset cu))
                       debug_abbrev_end cu of
                  Inl e \<Rightarrow> Some (Inl e)
                | Inr cu' \<Rightarrow>
                    read_cus_loop n mem f
                      (ptr + unat ((if is_64_bit cu' then 12 else 4) + unit_length cu'))
                      (acc @ [cu'])))
        else Some (Inr acc))"

definition read_cus :: "nat \<Rightarrow> memory \<Rightarrow> elf_file \<Rightarrow> (error + compilation_unit list) option" where
  "read_cus fuel mem f = read_cus_loop fuel mem f (buffer (f_debug_info f)) []"

text \<open>The loop over the units of a file that calls \<open>index_cu\<close>.\<close>

fun index_cus ::
  "nat \<Rightarrow> memory \<Rightarrow> elf_section \<Rightarrow> compilation_unit list \<Rightarrow> die_hash
     \<Rightarrow> (error + die_hash) option" where
  "index_cus fuel mem dstr [] tbl = Some (Inr tbl)"
| "index_cus fuel mem dstr (cu # rest) tbl =
     (case index_cu fuel mem dstr cu tbl of
        None \<Rightarrow> None
      | Some (Inl e) \<Rightarrow> Some (Inl e)
      | Some (Inr tbl') \<Rightarrow> index_cus fuel mem dstr rest tbl')"

text \<open>The memory after the relocation of the three debug sections, in their order.\<close>

definition relocate_file :: "memory \<Rightarrow> elf_file \<Rightarrow> error + memory" where
  "relocate_file mem f =
     (case apply_relocations mem (f_debug_abbrev f) (f_rela_debug_abbrev f) (f_symtab f) of
        Inl e \<Rightarrow> Inl e
      | Inr m1 \<Rightarrow>
          (case apply_relocations m1 (f_debug_info f) (f_rela_debug_info f) (f_symtab f) of
             Inl e \<Rightarrow> Inl e
           | Inr m2 \<Rightarrow> apply_relocations m2 (f_debug_str f) (f_rela_debug_str f) (f_symtab f)))"

definition debug_str_terminated :: "memory \<Rightarrow> elf_section \<Rightarrow> bool" where
  "debug_str_terminated mem dstr =
     (\<not> (size_sec dstr = 0 \<or> mem (buffer dstr + unat (size_sec dstr) - 1) \<noteq> 0))"

text \<open>
  The body of the loop of \<open>DwarfIndex_init\<close> for one file, from the relocations on:
  the relocations, the check of \<open>.debug_str\<close>, \<open>read_cus\<close>, and \<open>index_cu\<close> for
  every unit. The result is the memory, the units and the hash table.
\<close>

definition DwarfIndex_init_file ::
  "nat \<Rightarrow> memory \<Rightarrow> die_hash \<Rightarrow> elf_file
     \<Rightarrow> (error + (memory \<times> elf_file \<times> die_hash)) option" where
  "DwarfIndex_init_file fuel mem tbl f =
     (case relocate_file mem f of
        Inl e \<Rightarrow> Some (Inl e)
      | Inr m \<Rightarrow>
          if size_sec (f_debug_str f) = 0
             \<or> m (buffer (f_debug_str f) + unat (size_sec (f_debug_str f)) - 1) \<noteq> 0
          then Some (Inl (DwarfFormatError ''.debug_str is not null terminated''))
          else
            (case read_cus fuel m f of
               None \<Rightarrow> None
             | Some (Inl e) \<Rightarrow> Some (Inl e)
             | Some (Inr units) \<Rightarrow>
                 (case index_cus fuel m (f_debug_str f) units tbl of
                    None \<Rightarrow> None
                  | Some (Inl e) \<Rightarrow> Some (Inl e)
                  | Some (Inr tbl') \<Rightarrow> Some (Inr (m, f\<lparr>f_cus := units\<rparr>, tbl')))))"

subsection \<open>Small files used as concrete inputs\<close>

text \<open>
  A mapping whose \<open>.debug_info\<close> (address 0, 16 bytes) holds one unit: length 12,
  version 4, abbreviation offset 0, address size 8, and one DIE at offset 11 with
  abbreviation code 1 and a \<open>DW_AT_sibling\<close> of form \<open>DW_FORM_ref4\<close> whose value is
  11, the offset of the DIE itself. Its \<open>.debug_abbrev\<close> (address 16, 8 bytes) declares
  code 1 as \<open>DW_TAG_compile_unit\<close> with children and that one attribute. Its
  \<open>.debug_str\<close> (address 24) is the single byte 0.
\<close>

definition self_sibling_mem :: memory where
  "self_sibling_mem = mem_of
     [0x0c, 0, 0, 0,  0x04, 0,  0, 0, 0, 0,  0x08,   0x01,  0x0b, 0, 0, 0,
      0x01, 0x11, 0x01,  0x01, 0x13,  0x00, 0x00,  0x00,
      0x00]"

definition no_section :: elf_section where
  "no_section = \<lparr> shdr_index = 0, buffer = 0, size_sec = 0 \<rparr>"

definition self_sibling_file :: elf_file where
  "self_sibling_file =
     \<lparr> f_symtab = \<lparr> shdr_index = 4, buffer = 25, size_sec = 0 \<rparr>,
       f_debug_abbrev = \<lparr> shdr_index = 2, buffer = 16, size_sec = 8 \<rparr>,
       f_debug_info = \<lparr> shdr_index = 1, buffer = 0, size_sec = 16 \<rparr>,
       f_debug_str = \<lparr> shdr_index = 3, buffer = 24, size_sec = 1 \<rparr>,
       f_rela_debug_abbrev = no_section,
       f_rela_debug_info = no_section,
       f_rela_debug_str = no_section,
       f_cus = [] \<rparr>"

definition self_sibling_cu :: compilation_unit where
  "self_sibling_cu =
     \<lparr> cu_ptr = 0, unit_length = 12, version = 4, debug_abbrev_offset = 0,
       address_size = 8, is_64_bit = False,
       abbrev_decls = [\<lparr> cmds = [ATTRIB_SIBLING_REF4, 0, 0, 1] \<rparr>] \<rparr>"

text \<open>
  A mapping whose \<open>.debug_info\<close> (address 0, 19 bytes) holds one unit with address
  size 0: the unit DIE (code 1), its child (code 2) with the name \<open>foo\<close> and an empty
  block, and the null entry that ends the children. Its \<open>.debug_abbrev\<close> (address 19,
  19 bytes) declares code 1 as \<open>DW_TAG_compile_unit\<close> with children and no
  attributes, and code 2 as \<open>DW_TAG_structure_type\<close> without children and with the
  attributes \<open>(DW_AT_name, DW_FORM_string)\<close>, \<open>(DW_AT_declaration,
  DW_FORM_flag_present)\<close>, \<open>(DW_AT_low_pc, DW_FORM_addr)\<close> and \<open>(DW_AT_location,
  DW_FORM_block1)\<close>. Its \<open>.debug_str\<close> (address 38) is the single byte 0.
\<close>

definition zero_addr_mem :: memory where
  "zero_addr_mem = mem_of
     [0x0f, 0, 0, 0,  0x04, 0,  0, 0, 0, 0,  0x00,
      0x01,
      0x02,  0x66, 0x6f, 0x6f, 0x00,  0x00,
      0x00,
      0x01, 0x11, 0x01,  0x00, 0x00,
      0x02, 0x13, 0x00,  0x03, 0x08,  0x3c, 0x19,  0x11, 0x01,  0x02, 0x0a,  0x00, 0x00,
      0x00,
      0x00]"

definition zero_addr_file :: elf_file where
  "zero_addr_file =
     \<lparr> f_symtab = \<lparr> shdr_index = 4, buffer = 39, size_sec = 0 \<rparr>,
       f_debug_abbrev = \<lparr> shdr_index = 2, buffer = 19, size_sec = 19 \<rparr>,
       f_debug_info = \<lparr> shdr_index = 1, buffer = 0, size_sec = 19 \<rparr>,
       f_debug_str = \<lparr> shdr_index = 3, buffer = 38, size_sec = 1 \<rparr>,
       f_rela_debug_abbrev = no_section,
       f_rela_debug_info = no_section,
       f_rela_debug_str = no_section,
       f_cus = [] \<rparr>"

definition zero_addr_cu :: compilation_unit where
  "zero_addr_cu =
     \<lparr> cu_ptr = 0, unit_length = 15, version = 4, debug_abbrev_offset = 0,
       address_size = 0, is_64_bit = False,
       abbrev_decls = [\<lparr> cmds = [0, 0, 1] \<rparr>,
                       \<lparr> cmds = [ATTRIB_NAME_STRING, 0, ATTRIB_BLOCK1, 0, 0, 0] \<rparr>] \<rparr>"

text \<open>
  A mapping whose \<open>.debug_info\<close> (address 0, 22 bytes) holds one unit with address
  size 8: the unit DIE (code 1), a child (code 2) with \<open>DW_AT_name\<close> given as the
  offset 0 into \<open>.debug_str\<close> and a 4-byte type reference, and the null entry. Its
  \<open>.debug_abbrev\<close> (address 22, 15 bytes) declares code 1 as
  \<open>DW_TAG_compile_unit\<close> with children and no attributes, and code 2 as
  \<open>DW_TAG_variable\<close> without children and with the attributes \<open>(DW_AT_name,
  DW_FORM_strp)\<close> and \<open>(DW_AT_type, DW_FORM_ref4)\<close>. Its \<open>.debug_str\<close> (address 37)
  is \<open>foo\<close> and a NUL. The second file is the same with a \<open>.debug_str\<close> of 3 bytes,
  without the NUL.
\<close>

definition strp_mem :: memory where
  "strp_mem = mem_of
     [0x12, 0, 0, 0,  0x04, 0,  0, 0, 0, 0,  0x08,
      0x01,
      0x02,  0x00, 0x00, 0x00, 0x00,  0x0b, 0x00, 0x00, 0x00,
      0x00,
      0x01, 0x11, 0x01,  0x00, 0x00,
      0x02, 0x34, 0x00,  0x03, 0x0e,  0x49, 0x13,  0x00, 0x00,
      0x00,
      0x66, 0x6f, 0x6f, 0x00]"

definition strp_file :: elf_file where
  "strp_file =
     \<lparr> f_symtab = \<lparr> shdr_index = 4, buffer = 41, size_sec = 0 \<rparr>,
       f_debug_abbrev = \<lparr> shdr_index = 2, buffer = 22, size_sec = 15 \<rparr>,
       f_debug_info = \<lparr> shdr_index = 1, buffer = 0, size_sec = 22 \<rparr>,
       f_debug_str = \<lparr> shdr_index = 3, buffer = 37, size_sec = 4 \<rparr>,
       f_rela_debug_abbrev = no_section,
       f_rela_debug_info = no_section,
       f_rela_debug_str = no_section,
       f_cus = [] \<rparr>"

definition strp_file_cut :: elf_file where
  "strp_file_cut = strp_file\<lparr> f_debug_str := \<lparr> shdr_index = 3, buffer = 37, size_sec = 3 \<rparr> \<rparr>"

definition strp_cu :: compilation_unit where
  "strp_cu =
     \<lparr> cu_ptr = 0, unit_length = 18, version = 4, debug_abbrev_offset = 0,
       address_size = 8, is_64_bit = False,
       abbrev_decls = [\<lparr> cmds = [0, 0, 1] \<rparr>,
                       \<lparr> cmds = [ATTRIB_NAME_STRP, 4, 0, 0x34, 0] \<rparr>] \<rparr>"

section \<open>Lemmas about read_uleb128\<close>

lemma or_push_bit_add:
  fixes v :: "64 word"
  assumes "take_bit n v = v"
  shows "v OR push_bit n x = v + push_bit n x"
proof -
  have "v AND push_bit n x = 0"
  proof (rule bit_eqI)
    fix i
    have "bit v i \<Longrightarrow> i < n"
      using assms by (metis bit_take_bit_iff)
    then show "bit (v AND push_bit n x) i = bit (0::64 word) i"
      by (auto simp: bit_and_iff bit_push_bit_iff)
  qed
  then show ?thesis
    by (simp add: disjunctive_add_eq_or)
qed

lemma take_bit_or_push:
  fixes v :: "64 word" and b :: "8 word"
  assumes "take_bit n v = v"
  shows "take_bit (n + 7) (v OR push_bit n (ucast (b AND 0x7f))) = v OR push_bit n (ucast (b AND 0x7f))"
proof (rule bit_eqI)
  fix i
  have a: "bit v i \<Longrightarrow> i < n"
    using assms by (metis bit_take_bit_iff)
  have b: "bit (b AND 0x7f) j \<Longrightarrow> j < 7" for j
  proof -
    assume "bit (b AND 0x7f) j"
    then have "bit (0x7f :: 8 word) j" by (simp add: bit_and_iff)
    then have "bit (mask 7 :: 8 word) j" by (simp add: mask_eq_exp_minus_1)
    then show "j < 7" by (simp add: bit_mask_iff)
  qed
  show "bit (take_bit (n + 7) (v OR push_bit n (ucast (b AND 0x7f)))) i = bit (v OR push_bit n (ucast (b AND 0x7f))) i"
    using a b[of "i - n"]
    by (auto simp: bit_take_bit_iff bit_or_iff bit_push_bit_iff bit_ucast_iff)
qed

lemma push_bit_ucast_nat:
  fixes b :: "8 word"
  shows "(push_bit n (ucast b) :: 64 word) = word_of_nat (unat b * 2 ^ n)"
  by (simp add: push_bit_eq_mult)



lemma byte_cont_bit7: "(byte::8 word) AND 0x80 = 0 \<longleftrightarrow> \<not> bit byte 7"
proof -
  have "(0x80::8 word) = 2 ^ 7" by simp
  then show ?thesis by (simp only: and_exp_eq_0_iff_not_bit)
qed

lemma byte_le1_cases: "\<not> (byte::8 word) > 1 \<Longrightarrow> byte = 0 \<or> byte = 1"
proof -
  assume "\<not> byte > 1"
  then have "unat byte \<le> 1" by (simp add: word_less_nat_alt)
  then have "unat byte = 0 \<or> unat byte = 1" by arith
  then show ?thesis by (metis unat_0 unat_1 word_unat_eq_iff)
qed

lemma byte_le1_no_cont: "\<not> (byte::8 word) > 1 \<Longrightarrow> byte AND 0x80 = 0"
  using byte_le1_cases[of byte] by auto

lemma no_cont_and7f: "(byte::8 word) AND 0x80 = 0 \<Longrightarrow> byte AND 0x7f = byte"
proof -
  assume a: "byte AND 0x80 = 0"
  then have n7: "\<not> bit byte 7" using byte_cont_bit7 by blast
  have m: "(0x7f::8 word) = mask 7" by (simp add: mask_eq_exp_minus_1)
  show ?thesis
  proof (rule bit_eqI)
    fix i
    have "bit byte i \<Longrightarrow> i < 7"
    proof -
      assume b: "bit byte i"
      then have "i < 8" using bit_imp_le_length[of byte i] by simp
      with b n7 show "i < 7" by (cases "i = 7") auto
    qed
    then show "bit (byte AND 0x7f) i = bit byte i"
      unfolding m by (auto simp: bit_and_iff bit_mask_iff)
  qed
qed


lemma bytes_at_empty: "endp \<le> ptr \<Longrightarrow> bytes_at mem ptr endp = []"
  by (simp add: bytes_at_def)

lemma bytes_at_Cons: "ptr < endp \<Longrightarrow> bytes_at mem ptr endp = mem ptr # bytes_at mem (Suc ptr) endp"
  by (simp add: bytes_at_def upt_conv_Cons)

lemma refused_from_step:
  assumes "k < 9" "ptr < endp" "mem ptr AND 0x80 \<noteq> 0"
  shows "refused_from mem ptr endp k = refused_from mem (Suc ptr) endp (Suc k)"
proof -
  have a: "(\<forall>j<9 - k. mem (ptr + j) AND 0x80 \<noteq> 0) \<longleftrightarrow> (\<forall>j<9 - Suc k. mem (Suc ptr + j) AND 0x80 \<noteq> 0)"
  proof
    assume h: "\<forall>j<9 - k. mem (ptr + j) AND 0x80 \<noteq> 0"
    show "\<forall>j<9 - Suc k. mem (Suc ptr + j) AND 0x80 \<noteq> 0"
    proof (intro allI impI)
      fix j assume "j < 9 - Suc k"
      then have "Suc j < 9 - k" by arith
      with h have "mem (ptr + Suc j) AND 0x80 \<noteq> 0" by blast
      then show "mem (Suc ptr + j) AND 0x80 \<noteq> 0" by simp
    qed
  next
    assume h: "\<forall>j<9 - Suc k. mem (Suc ptr + j) AND 0x80 \<noteq> 0"
    show "\<forall>j<9 - k. mem (ptr + j) AND 0x80 \<noteq> 0"
    proof (intro allI impI)
      fix j assume j: "j < 9 - k"
      show "mem (ptr + j) AND 0x80 \<noteq> 0"
      proof (cases j)
        case 0 then show ?thesis using assms by simp
      next
        case (Suc i)
        with j have "i < 9 - Suc k" by arith
        with h have "mem (Suc ptr + i) AND 0x80 \<noteq> 0" by blast
        with Suc show ?thesis by simp
      qed
    qed
  qed
  have b: "ptr + (10 - k) = Suc ptr + (10 - Suc k)" "ptr + (9 - k) = Suc ptr + (9 - Suc k)"
    using assms by arith+
  show ?thesis unfolding refused_from_def a b ..
qed

lemma read_uleb128_loop_char:
  assumes "k \<le> 9" "take_bit (7 * k) val = val"
  shows "read_uleb128_loop mem ptr endp (7 * k) val =
     (if refused_from mem ptr endp k
      then Inl (OverflowError ''ULEB128 overflowed unsigned 64-bit integer'')
      else case uleb128_value (bytes_at mem ptr endp) of
             None \<Rightarrow> Inl EOFError
           | Some v \<Rightarrow> Inr (val + word_of_nat (v * 2 ^ (7 * k)),
                            ptr + uleb128_length (bytes_at mem ptr endp)))"
  using assms
proof (induction "9 - k" arbitrary: k ptr val)
  case 0
  then have k: "k = 9" by simp
  show ?case
  proof (cases "ptr \<ge> endp")
    case True
    then show ?thesis
      by (subst read_uleb128_loop.simps) (simp add: bytes_at_empty refused_from_def k)
  next
    case False
    then have lt: "ptr < endp" by simp
    show ?thesis
    proof (cases "mem ptr > 1")
      case True
      then show ?thesis using lt
        by (subst read_uleb128_loop.simps) (simp add: refused_from_def k)
    next
      case nb: False
      then have nc: "mem ptr AND 0x80 = 0" by (rule byte_le1_no_cont)
      have t: "take_bit 63 val = val" using "0.prems"(2) k by simp
      have "val OR push_bit 63 (ucast (mem ptr)) = val + push_bit 63 (ucast (mem ptr))"
        by (rule or_push_bit_add[OF t])
      then have v: "val OR push_bit 63 (ucast (mem ptr AND 0x7f)) = val + word_of_nat (unat (mem ptr) * 2 ^ 63)"
        by (simp only: no_cont_and7f[OF nc] push_bit_ucast_nat)
      show ?thesis using lt nb nc v
        by (subst read_uleb128_loop.simps)
           (simp add: refused_from_def k bytes_at_Cons Let_def)
    qed
  qed
next
  case (Suc n)
  then have k: "k < 9" "9 - Suc k = n" by arith+
  then have s63: "7 * k \<noteq> 63" by arith
  show ?case
  proof (cases "ptr \<ge> endp")
    case True
    have nr: "\<not> refused_from mem ptr endp k"
      unfolding refused_from_def using True k by arith
    show ?thesis using True nr
      by (subst read_uleb128_loop.simps) (simp add: bytes_at_empty)
  next
    case False
    then have lt: "ptr < endp" by simp
    let ?b = "mem ptr"
    let ?v' = "val OR push_bit (7 * k) (ucast (?b AND 0x7f))"
    have "?v' = val + push_bit (7 * k) (ucast (?b AND 0x7f))"
      by (rule or_push_bit_add[OF Suc.prems(2)])
    then have v': "?v' = val + word_of_nat (unat (?b AND 0x7f) * 2 ^ (7 * k))"
      by (simp only: push_bit_ucast_nat)
    show ?thesis
    proof (cases "?b AND 0x80 = 0")
      case True
      have nr: "\<not> refused_from mem ptr endp k"
      proof
        assume "refused_from mem ptr endp k"
        then have "\<forall>j<9 - k. mem (ptr + j) AND 0x80 \<noteq> 0" by (simp add: refused_from_def)
        moreover have "0 < 9 - k" using k by arith
        ultimately have "mem (ptr + 0) AND 0x80 \<noteq> 0" by blast
        with True show False by simp
      qed
      show ?thesis using lt True nr s63 v'
        by (subst read_uleb128_loop.simps)
           (simp add: bytes_at_Cons Let_def no_cont_and7f[OF True])
    next
      case False
      have e: "7 * Suc k = 7 * k + 7" by simp
      have tb: "take_bit (7 * Suc k) ?v' = ?v'"
        unfolding e by (rule take_bit_or_push[OF Suc.prems(2)])
      have IH: "read_uleb128_loop mem (Suc ptr) endp (7 * Suc k) ?v' =
        (if refused_from mem (Suc ptr) endp (Suc k)
         then Inl (OverflowError ''ULEB128 overflowed unsigned 64-bit integer'')
         else case uleb128_value (bytes_at mem (Suc ptr) endp) of
             None \<Rightarrow> Inl EOFError
           | Some v \<Rightarrow> Inr (?v' + word_of_nat (v * 2 ^ (7 * Suc k)),
                            Suc ptr + uleb128_length (bytes_at mem (Suc ptr) endp)))"
        using Suc.hyps(1)[of "Suc k" ?v' "Suc ptr"] k tb by simp
      have rs: "refused_from mem ptr endp k = refused_from mem (Suc ptr) endp (Suc k)"
        by (rule refused_from_step) (use k lt False in auto)
      have alg: "?v' + word_of_nat (v * 2 ^ (7 * Suc k)) =
                 val + word_of_nat ((unat (?b AND 0x7f) + 128 * v) * 2 ^ (7 * k))" for v
        unfolding v' by (simp add: algebra_simps power_add)
      have step: "read_uleb128_loop mem ptr endp (7 * k) val =
                  read_uleb128_loop mem (Suc ptr) endp (7 * Suc k) ?v'"
        using lt False s63
        by (subst read_uleb128_loop.simps) (simp add: Let_def add.commute)
      show ?thesis
      proof (cases "refused_from mem (Suc ptr) endp (Suc k)")
        case True
        then show ?thesis unfolding step IH rs by simp
      next
        case nr: False
        show ?thesis
        proof (cases "uleb128_value (bytes_at mem (Suc ptr) endp)")
          case None
          then show ?thesis unfolding step IH rs using nr lt False
            by (simp add: bytes_at_Cons)
        next
          case (Some v)
          have uv: "uleb128_value (bytes_at mem ptr endp) = Some (unat (?b AND 0x7f) + 128 * v)"
            using lt False Some by (simp add: bytes_at_Cons)
          have ul: "ptr + uleb128_length (bytes_at mem ptr endp) =
                    Suc ptr + uleb128_length (bytes_at mem (Suc ptr) endp)"
            using lt False by (simp add: bytes_at_Cons)
          show ?thesis unfolding step IH rs uv ul Some
            by (simp only: nr if_False option.case alg)
        qed
      qed
    qed
  qed
qed

lemma unat_and_7f: "unat ((b::8 word) AND 0x7f) < 128"
proof -
  have "unat (b AND 0x7f) = unat (b AND mask 7)" by (simp add: mask_eq_exp_minus_1)
  also have "\<dots> = take_bit 7 (unat b)" by (simp add: take_bit_eq_mask[symmetric] unsigned_take_bit_eq)
  also have "\<dots> < 2 ^ 7" by (rule take_bit_nat_less_exp)
  finally show ?thesis by simp
qed

lemma uleb128_value_bound:
  assumes "k \<le> 9" "\<not> refused_from mem ptr endp k"
    "uleb128_value (bytes_at mem ptr endp) = Some v"
  shows "v < 2 ^ (64 - 7 * k) \<and> uleb128_length (bytes_at mem ptr endp) \<le> 10 - k"
  using assms
proof (induction "9 - k" arbitrary: k ptr v)
  case 0
  then have k: "k = 9" by simp
  have lt: "ptr < endp"
    using "0.prems"(3) by (cases "ptr < endp") (simp_all add: bytes_at_empty)
  have le1: "\<not> mem ptr > 1"
    using "0.prems"(2) lt by (simp add: refused_from_def k)
  then have nc: "mem ptr AND 0x80 = 0" by (rule byte_le1_no_cont)
  have "mem ptr = 0 \<or> mem ptr = 1" using le1 by (rule byte_le1_cases)
  then have "unat (mem ptr) < 2" by auto
  then show ?case using "0.prems"(3) lt nc by (simp add: bytes_at_Cons k)
next
  case (Suc n)
  then have k: "k < 9" "9 - Suc k = n" by arith+
  have lt: "ptr < endp"
    using Suc.prems(3) by (cases "ptr < endp") (simp_all add: bytes_at_empty)
  show ?case
  proof (cases "mem ptr AND 0x80 = 0")
    case True
    then have "mem ptr AND 0x7f = mem ptr" by (rule no_cont_and7f)
    then have b: "unat (mem ptr) < 128" using unat_and_7f[of "mem ptr"] by simp
    have "(128::nat) \<le> 2 ^ (64 - 7 * k)"
    proof -
      have "(2::nat) ^ 7 \<le> 2 ^ (64 - 7 * k)" by (rule power_increasing) (use k in auto)
      then show ?thesis by simp
    qed
    with b have "unat (mem ptr) < 2 ^ (64 - 7 * k)" by arith
    then show ?thesis using Suc.prems(3) lt True k by (simp add: bytes_at_Cons)
  next
    case False
    from Suc.prems(3) lt False obtain v' where
      v': "uleb128_value (bytes_at mem (Suc ptr) endp) = Some v'"
      and v: "v = unat (mem ptr AND 0x7f) + 128 * v'"
      by (auto simp: bytes_at_Cons)
    have nr: "\<not> refused_from mem (Suc ptr) endp (Suc k)"
      using refused_from_step[of k ptr endp mem] k lt False Suc.prems(2) by simp
    have IH: "v' < 2 ^ (64 - 7 * Suc k) \<and> uleb128_length (bytes_at mem (Suc ptr) endp) \<le> 10 - Suc k"
      using Suc.hyps(1)[of "Suc k" "Suc ptr" v'] k nr v' by simp
    have b: "unat (mem ptr AND 0x7f) < 128" by (rule unat_and_7f)
    have e: "(2::nat) ^ (64 - 7 * k) = 128 * 2 ^ (64 - 7 * Suc k)"
    proof -
      have e0: "64 - 7 * k = 7 + (64 - 7 * Suc k)" using k by arith
      have "(2::nat) ^ (64 - 7 * k) = 2 ^ (7 + (64 - 7 * Suc k))"
        by (rule arg_cong[where f = "\<lambda>x. 2 ^ x", OF e0])
      also have "\<dots> = 2 ^ 7 * 2 ^ (64 - 7 * Suc k)" by (rule power_add)
      finally show ?thesis by simp
    qed
    have "v < 2 ^ (64 - 7 * k)" unfolding e v using b IH by arith
    moreover have "uleb128_length (bytes_at mem ptr endp) \<le> 10 - k"
    proof -
      have "uleb128_length (bytes_at mem ptr endp) = Suc (uleb128_length (bytes_at mem (Suc ptr) endp))"
        using lt False by (simp add: bytes_at_Cons)
      then show ?thesis using IH k by arith
    qed
    ultimately show ?thesis by simp
  qed
qed

lemma list_all_upt: "list_all P [0..<n] = (\<forall>j<n. P j)"
  unfolding list_all_length by simp

lemma refused_from_0: "refused_from mem ptr endp 0 = uleb128_tenth_byte_refused mem ptr endp"
  unfolding refused_from_def uleb128_tenth_byte_refused_def list_all_upt by simp

section \<open>Lemmas about relocation\<close>
























text \<open>The loop over one more entry, and the entry at which the loop fails.\<close>

lemma apply_relocations_loop_snoc:
  assumes "j \<le> k"
  shows "apply_relocations_loop m sec relocs (Suc k) syms ns j =
    (case apply_relocations_loop m sec relocs k syms ns j of
       Inl e \<Rightarrow> Inl e
     | Inr m' \<Rightarrow> apply_relocation m' sec syms ns (load_rela m' relocs k))"
  using assms
proof (induction "k - j" arbitrary: j m)
  case 0
  then have jk: "j = k" by simp
  have a: "apply_relocations_loop m sec relocs k syms ns k = Inr m"
    by (subst apply_relocations_loop.simps) simp
  have b: "apply_relocations_loop m' sec relocs (Suc k) syms ns (Suc k) = Inr m'" for m'
    by (subst apply_relocations_loop.simps) simp
  have "apply_relocations_loop m sec relocs (Suc k) syms ns k
        = apply_relocation m sec syms ns (load_rela m relocs k)"
    by (subst apply_relocations_loop.simps) (simp add: b split: sum.splits)
  with a jk show ?case by simp
next
  case (Suc d)
  then have lt: "j < k" and d: "d = k - (j + 1)" and le: "j + 1 \<le> k" by simp_all
  show ?case
  proof (cases "apply_relocation m sec syms ns (load_rela m relocs j)")
    case (Inl e)
    with lt show ?thesis
      by (subst apply_relocations_loop.simps, subst (2) apply_relocations_loop.simps) simp
  next
    case (Inr m1)
    from Suc.hyps(1)[OF d le, of m1]
    have "apply_relocations_loop m1 sec relocs (Suc k) syms ns (j + 1) =
      (case apply_relocations_loop m1 sec relocs k syms ns (j + 1) of
         Inl e \<Rightarrow> Inl e
       | Inr m' \<Rightarrow> apply_relocation m' sec syms ns (load_rela m' relocs k))" .
    with Inr lt show ?thesis
      by (subst apply_relocations_loop.simps, subst (2) apply_relocations_loop.simps) simp
  qed
qed

lemma apply_relocations_loop_fails:
  "(apply_relocations_loop mem sec relocs n syms ns 0 = Inl err) =
   (\<exists>i m. i < n \<and> apply_relocations_loop mem sec relocs i syms ns 0 = Inr m
          \<and> apply_relocation m sec syms ns (load_rela m relocs i) = Inl err)"
proof (induction n arbitrary: err)
  case 0
  have "apply_relocations_loop mem sec relocs 0 syms ns 0 = Inr mem"
    by (subst apply_relocations_loop.simps) simp
  then show ?case by simp
next
  case (Suc n)
  note sn = apply_relocations_loop_snoc[of 0 n mem sec relocs syms ns, simplified]
  show ?case
  proof (cases "apply_relocations_loop mem sec relocs n syms ns 0")
    case (Inl e)
    with sn have l: "apply_relocations_loop mem sec relocs (Suc n) syms ns 0 = Inl e" by simp
    show ?thesis
    proof
      assume "apply_relocations_loop mem sec relocs (Suc n) syms ns 0 = Inl err"
      with l Inl have "apply_relocations_loop mem sec relocs n syms ns 0 = Inl err" by simp
      with Suc.IH obtain i m where "i < n"
        "apply_relocations_loop mem sec relocs i syms ns 0 = Inr m"
        "apply_relocation m sec syms ns (load_rela m relocs i) = Inl err" by blast
      then show "\<exists>i m. i < Suc n \<and> apply_relocations_loop mem sec relocs i syms ns 0 = Inr m
          \<and> apply_relocation m sec syms ns (load_rela m relocs i) = Inl err"
        using less_Suc_eq by blast
    next
      assume "\<exists>i m. i < Suc n \<and> apply_relocations_loop mem sec relocs i syms ns 0 = Inr m
          \<and> apply_relocation m sec syms ns (load_rela m relocs i) = Inl err"
      then obtain i m where i: "i < Suc n"
        and p: "apply_relocations_loop mem sec relocs i syms ns 0 = Inr m"
        and r: "apply_relocation m sec syms ns (load_rela m relocs i) = Inl err" by blast
      from p Inl have "i \<noteq> n" by auto
      with i have "i < n" by simp
      with p r Suc.IH have "apply_relocations_loop mem sec relocs n syms ns 0 = Inl err" by blast
      with Inl l show "apply_relocations_loop mem sec relocs (Suc n) syms ns 0 = Inl err" by simp
    qed
  next
    case (Inr m')
    with sn have l: "apply_relocations_loop mem sec relocs (Suc n) syms ns 0
        = apply_relocation m' sec syms ns (load_rela m' relocs n)" by simp
    from Inr Suc.IH have none: "\<not> (\<exists>i m. i < n \<and> apply_relocations_loop mem sec relocs i syms ns 0 = Inr m
          \<and> apply_relocation m sec syms ns (load_rela m relocs i) = Inl e)" for e
      by (metis Inl_Inr_False)
    show ?thesis
    proof
      assume "apply_relocations_loop mem sec relocs (Suc n) syms ns 0 = Inl err"
      with l Inr show "\<exists>i m. i < Suc n \<and> apply_relocations_loop mem sec relocs i syms ns 0 = Inr m
          \<and> apply_relocation m sec syms ns (load_rela m relocs i) = Inl err"
        by (intro exI[of _ n] exI[of _ m']) simp
    next
      assume "\<exists>i m. i < Suc n \<and> apply_relocations_loop mem sec relocs i syms ns 0 = Inr m
          \<and> apply_relocation m sec syms ns (load_rela m relocs i) = Inl err"
      then obtain i m where i: "i < Suc n"
        and p: "apply_relocations_loop mem sec relocs i syms ns 0 = Inr m"
        and r: "apply_relocation m sec syms ns (load_rela m relocs i) = Inl err" by blast
      from none[of err] p r have "\<not> i < n" by blast
      with i have "i = n" by simp
      with p Inr r l show "apply_relocations_loop mem sec relocs (Suc n) syms ns 0 = Inl err"
        by simp
    qed
  qed
qed

lemma first_relocs_count:
  assumes "i \<le> unat (size_sec rela_section) div sizeof_Elf64_Rela"
  shows "unat (size_sec (first_relocs rela_section i)) div sizeof_Elf64_Rela = i"
proof -
  have "sizeof_Elf64_Rela * i \<le> unat (size_sec rela_section)"
    using assms by (simp add: sizeof_Elf64_Rela_def)
  moreover have "unat (size_sec rela_section) < 2 ^ 64"
    using unsigned_less[of "size_sec rela_section", where 'a = nat] by simp
  ultimately have lt: "sizeof_Elf64_Rela * i < 2 ^ 64" by simp
  have "unat (word_of_nat k :: 64 word) = k" if "k < 2 ^ 64" for k
    using that by (simp add: unsigned_of_nat take_bit_nat_eq_self)
  from this[OF lt]
  have "unat (word_of_nat (sizeof_Elf64_Rela * i) :: 64 word) = sizeof_Elf64_Rela * i" .
  then show ?thesis by (simp add: first_relocs_def sizeof_Elf64_Rela_def)
qed

lemma apply_relocations_first:
  assumes "i \<le> unat (size_sec rela_section) div sizeof_Elf64_Rela"
  shows "apply_relocations mem sec (first_relocs rela_section i) symtab
       = apply_relocations_loop mem sec (buffer rela_section) i (buffer symtab)
           (unat (size_sec symtab) div sizeof_Elf64_Rela) 0"
proof -
  have "buffer (first_relocs rela_section i) = buffer rela_section"
    by (simp add: first_relocs_def)
  with first_relocs_count[OF assms] show ?thesis
    by (simp add: apply_relocations_def Let_def)
qed

lemma apply_relocation_symbol_iff:
  "(apply_relocation m sec syms ns e = Inl (ElfFormatError ''invalid relocation symbol''))
   = ((rela_type e = R_X86_64_32 \<or> rela_type e = R_X86_64_64) \<and> unat (rela_sym e) \<ge> ns)"
  by (auto simp: apply_relocation_def Let_def R_X86_64_32_def R_X86_64_64_def R_X86_64_NONE_def)

lemma sym_count: "n div sizeof_Elf64_Rela = n div sizeof_Elf64_Sym"
  by (simp add: sizeof_Elf64_Rela_def sizeof_Elf64_Sym_def)




lemmas reloc_eval =
  apply_relocations_def apply_relocations_loop.simps apply_relocation_def load_rela_def
  load_st_value_def load_u64_def load_u32_def load_u16_def mem_of_def
  sizeof_Elf64_Rela_def sizeof_Elf64_Sym_def rela_type_def rela_sym_def
  R_X86_64_NONE_def R_X86_64_32_def R_X86_64_64_def SIZE_MAX_def Let_def
  store_u32_def store_u64_def result_bytes_def bytes_at_def upt_conv_Cons reloc_value_def








section \<open>Lemmas about the abbreviation table\<close>

lemma read_abbrev_decl_code0:
  "read_uleb128 mem ptr endp = Inr (0, p1) \<Longrightarrow> read_abbrev_decl mem ptr endp cu = Inr None"
  by (simp add: read_abbrev_decl_def)

lemma read_abbrev_decl_not_sequential:
  "read_uleb128 mem ptr endp = Inr (code, p1) \<Longrightarrow> code \<noteq> 0 \<Longrightarrow>
   unat code \<noteq> length (abbrev_decls cu) + 1 \<Longrightarrow>
   read_abbrev_decl mem ptr endp cu
     = Inl (NotImplementedError ''abbreviation table is not sequential'')"
  by (simp add: read_abbrev_decl_def)

lemma read_abbrev_decl_Some:
  assumes "read_abbrev_decl mem ptr endp cu = Inr (Some (p', cu'))"
  shows "\<exists>code p1 d. read_uleb128 mem ptr endp = Inr (code, p1)
           \<and> code = word_of_nat (length (abbrev_decls cu) + 1)
           \<and> unat code = length (abbrev_decls cu) + 1
           \<and> abbrev_decls cu' = abbrev_decls cu @ [d]"
proof -
  from assms obtain code p1 where r1: "read_uleb128 mem ptr endp = Inr (code, p1)"
    by (auto simp: read_abbrev_decl_def split: sum.splits)
  from assms r1 have c: "unat code = length (abbrev_decls cu) + 1"
    by (auto simp: read_abbrev_decl_def split: sum.splits if_splits)
  then have "word_of_nat (length (abbrev_decls cu) + 1) = (word_of_nat (unat code) :: 64 word)"
    by simp
  then have c': "code = word_of_nat (length (abbrev_decls cu) + 1)" by simp
  from assms r1 obtain d where "abbrev_decls cu' = abbrev_decls cu @ [d]"
    by (auto simp: read_abbrev_decl_def split: sum.splits if_splits)
  with r1 c c' show ?thesis by blast
qed

lemma read_abbrev_table_loop_trace:
  assumes "read_abbrev_table_loop mem ptr endp cu = Inr cu'"
  shows "\<exists>ds. abbrev_decls cu' = abbrev_decls cu @ ds
           \<and> abbrev_table_trace mem ptr endp cu
               = map (\<lambda>k. (word_of_nat (length (abbrev_decls cu) + k + 1), ds ! k)) [0..<length ds]"
  using assms
proof (induction mem ptr endp cu rule: read_abbrev_table_loop.induct)
  case (1 mem ptr endp cu)
  show ?case
  proof (cases "read_abbrev_decl mem ptr endp cu")
    case (Inl e)
    then show ?thesis using "1.prems" by (subst (asm) read_abbrev_table_loop.simps) simp
  next
    case (Inr r)
    show ?thesis
    proof (cases r)
      case None
      then have "cu' = cu" using "1.prems" Inr
        by (subst (asm) read_abbrev_table_loop.simps) simp
      moreover have "abbrev_table_trace mem ptr endp cu = []"
        using Inr None by (subst abbrev_table_trace.simps) simp
      ultimately show ?thesis by simp
    next
      case (Some pc)
      obtain p1 cu1 where pc: "pc = (p1, cu1)" by (cases pc)
      have step: "read_abbrev_decl mem ptr endp cu = Inr (Some (p1, cu1))"
        using Inr Some pc by simp
      have rest: "read_abbrev_table_loop mem p1 endp cu1 = Inr cu'"
        using "1.prems" step by (subst (asm) read_abbrev_table_loop.simps) simp
      from "1.IH"[OF step refl refl rest] obtain ds where
        ds: "abbrev_decls cu' = abbrev_decls cu1 @ ds"
        and tr: "abbrev_table_trace mem p1 endp cu1
               = map (\<lambda>k. (word_of_nat (length (abbrev_decls cu1) + k + 1), ds ! k)) [0..<length ds]"
        by blast
      from read_abbrev_decl_Some[OF step] obtain code q d where
        r1: "read_uleb128 mem ptr endp = Inr (code, q)"
        and c: "code = word_of_nat (length (abbrev_decls cu) + 1)"
        and d: "abbrev_decls cu1 = abbrev_decls cu @ [d]" by blast
      have tr0: "abbrev_table_trace mem ptr endp cu
                 = (code, d) # abbrev_table_trace mem p1 endp cu1"
        using step r1 d by (subst abbrev_table_trace.simps) simp
      let ?n = "length (abbrev_decls cu)"
      have "abbrev_table_trace mem ptr endp cu
            = map (\<lambda>k. (word_of_nat (?n + k + 1), (d # ds) ! k)) [0..<length (d # ds)]"
      proof -
        have "map (\<lambda>k. (word_of_nat (?n + k + 1) :: 64 word, (d # ds) ! k)) [0..<length (d # ds)]
              = (word_of_nat (?n + 1), d)
                # map (\<lambda>k. (word_of_nat (?n + Suc k + 1), ds ! k)) [0..<length ds]"
          by (simp add: map_upt_Suc del: upt_Suc)
        then show ?thesis using tr0 tr c d by simp
      qed
      moreover have "abbrev_decls cu' = abbrev_decls cu @ (d # ds)" using ds d by simp
      ultimately show ?thesis by blast
    qed
  qed
qed

lemmas abbrev_eval =
  read_abbrev_table_def read_abbrev_table_loop.simps read_abbrev_decl_def read_attribs.simps
  read_uleb128_def read_uleb128_loop.simps read_u8_def load_u8_def in_bounds_def
  compile_attrib_def special_cmd_def next_tag_def form_cmd_def emit_skip_def filter_tag_def
  DW_TAG_defs DW_AT_defs DW_FORM_defs ATTRIB_defs mem_of_def Let_def


section \<open>Lemmas about the attribute loop\<close>

lemma read_attribs_refines:
  assumes "attrib_pairs mem ptr endp = Inr (ps, p')"
  shows "read_attribs mem ptr endp cu tag cs =
           (case compile_attribs cu tag cs ps of
              Inl e \<Rightarrow> Inl e
            | Inr (t, c) \<Rightarrow> Inr (p', t, c))"
  using assms
proof (induction ps arbitrary: ptr tag cs)
  case Nil
  from Nil obtain name p1 where r1: "read_uleb128 mem ptr endp = Inr (name, p1)"
    by (subst (asm) attrib_pairs.simps) (auto split: sum.splits)
  from Nil r1 obtain form p2 where r2: "read_uleb128 mem p1 endp = Inr (form, p2)"
    by (subst (asm) attrib_pairs.simps) (auto split: sum.splits)
  from Nil r1 r2 have z: "name = 0 \<and> form = 0" and p: "p2 = p'"
    by (subst (asm) attrib_pairs.simps, auto split: sum.splits if_splits)+
  show ?case using r1 r2 z p by (subst read_attribs.simps) simp
next
  case (Cons a ps)
  obtain n f where a: "a = (n, f)" by (cases a)
  from Cons.prems obtain name p1 where r1: "read_uleb128 mem ptr endp = Inr (name, p1)"
    by (subst (asm) attrib_pairs.simps) (auto split: sum.splits)
  from Cons.prems r1 obtain form p2 where r2: "read_uleb128 mem p1 endp = Inr (form, p2)"
    by (subst (asm) attrib_pairs.simps) (auto split: sum.splits)
  from Cons.prems r1 r2 have nz: "\<not> (name = 0 \<and> form = 0)"
    by (subst (asm) attrib_pairs.simps) (auto split: sum.splits if_splits)
  from Cons.prems r1 r2 nz have rest: "attrib_pairs mem p2 endp = Inr (ps, p')"
    and nf: "name = n" "form = f"
    by (subst (asm) attrib_pairs.simps, auto simp: a split: sum.splits if_splits)+
  show ?case
  proof (cases "compile_attrib cu tag cs n f")
    case (Inl e)
    then show ?thesis using r1 r2 nz nf a
      by (subst read_attribs.simps) auto
  next
    case (Inr tc)
    obtain t c where tc: "tc = (t, c)" by (cases tc)
    have "read_attribs mem ptr endp cu tag cs = read_attribs mem p2 endp cu t c"
      using r1 r2 nz nf Inr tc by (subst read_attribs.simps) auto
    also have "\<dots> = (case compile_attribs cu t c ps of
              Inl e \<Rightarrow> Inl e
            | Inr (t, c) \<Rightarrow> Inr (p', t, c))"
      by (rule Cons.IH[OF rest])
    finally show ?thesis using Inr tc a by simp
  qed
qed

lemma compile_attribs_append:
  "compile_attribs cu tag cs (ps @ qs) =
     (case compile_attribs cu tag cs ps of
        Inl e \<Rightarrow> Inl e
      | Inr (t, c) \<Rightarrow> compile_attribs cu t c qs)"
  by (induction ps arbitrary: tag cs) (auto split: sum.splits)

lemma emit_skip_merge:
  assumes "M < ATTRIB_MIN_CMD"
  shows "emit_skip (pre @ [M]) N =
           (if unat M + unat N < 243 then pre @ [M + N]
            else pre @ [242, word_of_nat (unat M + unat N - 242)])"
  using assms by (simp add: emit_skip_def ATTRIB_defs)

lemma compile_attrib_skip:
  assumes "skip_size cu tag name form = Some N"
  shows "compile_attrib cu tag cs name form = Inr (next_tag name tag, emit_skip cs N)"
  using assms
  by (auto simp: skip_size_def compile_attrib_def split: option.splits form_action.splits)

lemma byte_less_243: "unat (M :: 8 word) < 243 \<Longrightarrow> M < ATTRIB_MIN_CMD"
  by (simp add: ATTRIB_defs word_less_nat_alt)

lemma compile_skips:
  assumes "skips_total cu tag ps = Some (S, t1)" "unat M + S < 243"
  shows "compile_attribs cu tag (pre @ [M]) ps = Inr (t1, pre @ [M + word_of_nat S])"
  using assms
proof (induction ps arbitrary: tag M S)
  case Nil
  then show ?case by simp
next
  case (Cons a ps)
  obtain n f where a: "a = (n, f)" by (cases a)
  from Cons.prems(1) a obtain N S' where
    sk: "skip_size cu tag n f = Some N"
    and rest: "skips_total cu (next_tag n tag) ps = Some (S', t1)"
    and S: "S = unat N + S'"
    by (auto split: option.splits)
  have M: "M < ATTRIB_MIN_CMD" using Cons.prems(2) by (intro byte_less_243) simp
  have lt: "unat M + unat N < 243" using Cons.prems(2) S by simp
  then have u: "unat (M + N) = unat M + unat N"
    by (simp add: unat_word_ariths)
  have step: "compile_attrib cu tag (pre @ [M]) n f = Inr (next_tag n tag, pre @ [M + N])"
    using compile_attrib_skip[OF sk] emit_skip_merge[OF M, of pre N] lt by simp
  have "compile_attribs cu (next_tag n tag) (pre @ [M + N]) ps
          = Inr (t1, pre @ [M + N + word_of_nat S'])"
    by (rule Cons.IH[OF rest]) (use u Cons.prems(2) S in simp)
  moreover have "M + N + word_of_nat S' = M + word_of_nat S"
    unfolding S by simp
  ultimately show ?case using step a by simp
qed

lemma compile_skips_from_empty:
  assumes "ps \<noteq> []" "skips_total cu tag ps = Some (S, t1)" "S < 243"
  shows "compile_attribs cu tag [] ps = Inr (t1, [word_of_nat S])"
proof -
  from assms(1) obtain n f ps' where ps: "ps = (n, f) # ps'" by (cases ps) auto
  from assms(2) ps obtain N S' where
    sk: "skip_size cu tag n f = Some N"
    and rest: "skips_total cu (next_tag n tag) ps' = Some (S', t1)"
    and S: "S = unat N + S'"
    by (auto split: option.splits)
  have step: "compile_attrib cu tag [] n f = Inr (next_tag n tag, [N])"
    using compile_attrib_skip[OF sk] by (simp add: emit_skip_def)
  have "compile_attribs cu (next_tag n tag) ([] @ [N]) ps' = Inr (t1, [] @ [N + word_of_nat S'])"
    by (rule compile_skips[OF rest]) (use assms(3) S in simp)
  moreover have "N + word_of_nat S' = word_of_nat S" unfolding S by simp
  ultimately show ?thesis using step ps by simp
qed


section \<open>Lemmas about the hash table\<close>

lemma find_loop_empty: "tbl i = None \<Longrightarrow> find_loop tbl nm tag orig_i i = None"
  by (subst find_loop.simps) simp

lemma find_loop_hit:
  "tbl i = Some entry \<Longrightarrow> e_tag entry = tag \<and> e_name entry = nm \<Longrightarrow>
   find_loop tbl nm tag orig_i i = Some entry"
  by (subst find_loop.simps) simp

lemma find_loop_wrap:
  "tbl i = Some entry \<Longrightarrow> \<not> (e_tag entry = tag \<and> e_name entry = nm) \<Longrightarrow> i + 1 = orig_i \<Longrightarrow>
   find_loop tbl nm tag orig_i i = None"
  by (subst find_loop.simps) auto

lemma find_loop_step:
  "tbl i = Some entry \<Longrightarrow> \<not> (e_tag entry = tag \<and> e_name entry = nm) \<Longrightarrow> i + 1 \<noteq> orig_i \<Longrightarrow>
   find_loop tbl nm tag orig_i i = find_loop tbl nm tag orig_i (i + 1)"
  by (subst find_loop.simps) auto

lemma find_loop_stable_aux:
  assumes "tbl s = None" "find_loop tbl nm tag orig_i i = Some e" "\<forall>a. a \<noteq> s \<longrightarrow> tbl' a = tbl a"
  shows "find_loop tbl' nm tag orig_i i = Some e"
  using assms
proof (induction tbl nm tag orig_i i rule: find_loop.induct)
  case (1 tbl nm tag orig_i i)
  from "1.prems"(2) obtain entry where en: "tbl i = Some entry"
    by (subst (asm) find_loop.simps) (auto split: option.splits)
  with "1.prems"(1) have ne: "i \<noteq> s" by auto
  then have en': "tbl' i = Some entry" using en "1.prems"(3) by simp
  show ?case
  proof (cases "e_tag entry = tag \<and> e_name entry = nm")
    case True
    then have "e = entry" using "1.prems"(2) en find_loop_hit[of tbl i entry tag nm orig_i] by simp
    then show ?thesis using True en' find_loop_hit[of tbl' i entry tag nm orig_i] by blast
  next
    case False
    have nw: "i + 1 \<noteq> orig_i"
      using "1.prems"(2) en False find_loop_wrap[of tbl i entry tag nm orig_i] by auto
    have rest: "find_loop tbl nm tag orig_i (i + 1) = Some e"
      using "1.prems"(2) en False nw find_loop_step[of tbl i entry tag nm orig_i] by simp
    from "1.IH"[OF en False nw "1.prems"(1) rest "1.prems"(3)]
    show ?thesis using en' False nw find_loop_step[of tbl' i entry tag nm orig_i] by simp
  qed
qed

lemma find_loop_stable:
  assumes "tbl s = None" "find_loop tbl nm tag orig_i i = Some e"
  shows "find_loop (tbl(s \<mapsto> x)) nm tag orig_i i = Some e"
  by (rule find_loop_stable_aux[OF assms]) simp

lemma find_loop_Some:
  assumes "find_loop tbl nm tag orig_i i = Some e"
  shows "slot_matches e nm tag \<and> (\<exists>s. tbl s = Some e)"
  using assms
proof (induction tbl nm tag orig_i i rule: find_loop.induct)
  case (1 tbl nm tag orig_i i)
  from "1.prems" obtain entry where en: "tbl i = Some entry"
    by (subst (asm) find_loop.simps) (auto split: option.splits)
  show ?case
  proof (cases "e_tag entry = tag \<and> e_name entry = nm")
    case True
    then have "e = entry" using "1.prems" en find_loop_hit[of tbl i entry tag nm orig_i] by simp
    then show ?thesis using en True by (auto simp: slot_matches_def)
  next
    case False
    have nw: "i + 1 \<noteq> orig_i"
      using "1.prems" en False find_loop_wrap[of tbl i entry tag nm orig_i] by auto
    have rest: "find_loop tbl nm tag orig_i (i + 1) = Some e"
      using "1.prems" en False nw find_loop_step[of tbl i entry tag nm orig_i] by simp
    from "1.IH"[OF en False nw rest] show ?thesis .
  qed
qed

lemma add_loop_cases:
  assumes "add_die_hash_entry_loop tbl nm tag cu p orig_i i = Inr tbl'"
  shows "(tbl' = tbl \<and> (\<exists>e. find_loop tbl nm tag orig_i i = Some e))
       \<or> (\<exists>s. tbl s = None
              \<and> tbl' = tbl(s \<mapsto> \<lparr> e_name = nm, e_tag = tag, e_cu = cu, e_ptr = p \<rparr>)
              \<and> find_loop tbl nm tag orig_i i = None
              \<and> find_loop tbl' nm tag orig_i i
                  = Some \<lparr> e_name = nm, e_tag = tag, e_cu = cu, e_ptr = p \<rparr>)"
  using assms
proof (induction tbl nm tag cu p orig_i i rule: add_die_hash_entry_loop.induct)
  case (1 tbl nm tag cu p orig_i i)
  let ?x = "\<lparr> e_name = nm, e_tag = tag, e_cu = cu, e_ptr = p \<rparr>"
  show ?case
  proof (cases "tbl i")
    case None
    then have t: "tbl' = tbl(i \<mapsto> ?x)" using "1.prems"
      by (subst (asm) add_die_hash_entry_loop.simps) simp
    have "find_loop tbl nm tag orig_i i = None" using None by (rule find_loop_empty)
    moreover have "find_loop tbl' nm tag orig_i i = Some ?x"
      unfolding t using find_loop_hit[of "tbl(i \<mapsto> ?x)" i ?x tag nm orig_i] by simp
    ultimately show ?thesis using None t by blast
  next
    case (Some entry)
    show ?thesis
    proof (cases "e_tag entry = tag \<and> e_name entry = nm")
      case True
      then have "tbl' = tbl" using "1.prems" Some
        by (subst (asm) add_die_hash_entry_loop.simps) simp
      moreover have "find_loop tbl nm tag orig_i i = Some entry"
        using Some True find_loop_hit[of tbl i entry tag nm orig_i] by simp
      ultimately show ?thesis by blast
    next
      case False
      have nw: "i + 1 \<noteq> orig_i"
        using "1.prems" Some False
        by (subst (asm) add_die_hash_entry_loop.simps) (auto split: if_splits)
      have rest: "add_die_hash_entry_loop tbl nm tag cu p orig_i (i + 1) = Inr tbl'"
        using "1.prems" Some False nw
        by (subst (asm) add_die_hash_entry_loop.simps) (auto split: if_splits)
      have f: "find_loop tbl nm tag orig_i i = find_loop tbl nm tag orig_i (i + 1)"
        using Some False nw find_loop_step[of tbl i entry tag nm orig_i] by simp
      from "1.IH"[OF Some False nw rest] show ?thesis
      proof
        assume "tbl' = tbl \<and> (\<exists>e. find_loop tbl nm tag orig_i (i + 1) = Some e)"
        then show ?thesis using f by simp
      next
        assume "\<exists>s. tbl s = None \<and> tbl' = tbl(s \<mapsto> ?x)
              \<and> find_loop tbl nm tag orig_i (i + 1) = None
              \<and> find_loop tbl' nm tag orig_i (i + 1) = Some ?x"
        then obtain s where s: "tbl s = None" "tbl' = tbl(s \<mapsto> ?x)"
          "find_loop tbl nm tag orig_i (i + 1) = None"
          "find_loop tbl' nm tag orig_i (i + 1) = Some ?x" by blast
        from s(1) Some have "s \<noteq> i" by auto
        then have "tbl' i = Some entry" using s(2) Some by simp
        then have "find_loop tbl' nm tag orig_i i = find_loop tbl' nm tag orig_i (i + 1)"
          using False nw find_loop_step[of tbl' i entry tag nm orig_i] by simp
        with s f have "tbl s = None \<and> tbl' = tbl(s \<mapsto> ?x)
              \<and> find_loop tbl nm tag orig_i i = None
              \<and> find_loop tbl' nm tag orig_i i = Some ?x" by simp
        then show ?thesis by blast
      qed
    qed
  qed
qed

lemma table_inv_empty: "table_inv empty_die_hash"
  by (simp add: table_inv_def empty_die_hash_def)

lemma add_preserves_inv:
  assumes "table_inv tbl" "add_die_hash_entry tbl nm tag cu p = Inr tbl'"
  shows "table_inv tbl'"
proof -
  let ?x = "\<lparr> e_name = nm, e_tag = tag, e_cu = cu, e_ptr = p \<rparr>"
  let ?h = "hash_index nm"
  from assms(2) have "add_die_hash_entry_loop tbl nm tag cu p ?h ?h = Inr tbl'"
    by (simp add: add_die_hash_entry_def)
  from add_loop_cases[OF this] show ?thesis
  proof
    assume "tbl' = tbl \<and> (\<exists>e. find_loop tbl nm tag ?h ?h = Some e)"
    then show ?thesis using assms(1) by simp
  next
    assume "\<exists>s. tbl s = None \<and> tbl' = tbl(s \<mapsto> ?x)
              \<and> find_loop tbl nm tag ?h ?h = None
              \<and> find_loop tbl' nm tag ?h ?h = Some ?x"
    then obtain s where s: "tbl s = None" "tbl' = tbl(s \<mapsto> ?x)"
      "find_loop tbl' nm tag ?h ?h = Some ?x" by blast
    show ?thesis unfolding table_inv_def
    proof (intro allI impI)
      fix s' e assume st: "tbl' s' = Some e"
      show "find_loop tbl' (e_name e) (e_tag e) (hash_index (e_name e)) (hash_index (e_name e)) = Some e"
      proof (cases "s' = s")
        case True
        then have "e = ?x" using st s(2) by simp
        then show ?thesis using s(3) by simp
      next
        case False
        then have "tbl s' = Some e" using st s(2) by simp
        then have "find_loop tbl (e_name e) (e_tag e) (hash_index (e_name e)) (hash_index (e_name e)) = Some e"
          using assms(1) by (simp add: table_inv_def)
        from find_loop_stable[OF s(1) this] show ?thesis unfolding s(2) .
      qed
    qed
  qed
qed

lemma entry_eta:
  "\<lparr> e_name = e_name x, e_tag = e_tag x, e_cu = e_cu x, e_ptr = e_ptr x \<rparr> = (x :: die_hash_entry)"
  by simp

lemma add_entries_find:
  assumes "table_inv tbl0" "add_entries tbl0 es = Inr tbl"
  shows "table_inv tbl
       \<and> (\<forall>nm tag. find_loop tbl nm tag (hash_index nm) (hash_index nm) =
             (case find_loop tbl0 nm tag (hash_index nm) (hash_index nm) of
                Some e \<Rightarrow> Some e
              | None \<Rightarrow> List.find (\<lambda>e. slot_matches e nm tag) es))"
  using assms
proof (induction es arbitrary: tbl0)
  case Nil
  then show ?case by (auto split: option.splits)
next
  case (Cons x xs)
  from Cons.prems(2) obtain tbl1 where
    a1: "add_die_hash_entry tbl0 (e_name x) (e_tag x) (e_cu x) (e_ptr x) = Inr tbl1"
    and a2: "add_entries tbl1 xs = Inr tbl"
    by (auto split: sum.splits)
  have inv1: "table_inv tbl1" by (rule add_preserves_inv[OF Cons.prems(1) a1])
  from Cons.IH[OF inv1 a2] have inv: "table_inv tbl"
    and IH: "\<And>nm tag. find_loop tbl nm tag (hash_index nm) (hash_index nm) =
             (case find_loop tbl1 nm tag (hash_index nm) (hash_index nm) of
                Some e \<Rightarrow> Some e
              | None \<Rightarrow> List.find (\<lambda>e. slot_matches e nm tag) xs)"
    by blast+
  let ?hx = "hash_index (e_name x)"
  from a1 have "add_die_hash_entry_loop tbl0 (e_name x) (e_tag x) (e_cu x) (e_ptr x) ?hx ?hx = Inr tbl1"
    by (simp add: add_die_hash_entry_def)
  from add_loop_cases[OF this]
  have cases: "(tbl1 = tbl0 \<and> (\<exists>e. find_loop tbl0 (e_name x) (e_tag x) ?hx ?hx = Some e))
       \<or> (\<exists>s. tbl0 s = None \<and> tbl1 = tbl0(s \<mapsto> x)
              \<and> find_loop tbl0 (e_name x) (e_tag x) ?hx ?hx = None
              \<and> find_loop tbl1 (e_name x) (e_tag x) ?hx ?hx = Some x)"
    by (simp add: entry_eta)
  have step: "find_loop tbl1 nm tag (hash_index nm) (hash_index nm) =
             (case find_loop tbl0 nm tag (hash_index nm) (hash_index nm) of
                Some e \<Rightarrow> Some e
              | None \<Rightarrow> if slot_matches x nm tag then Some x else None)" for nm tag
  proof (cases "find_loop tbl0 nm tag (hash_index nm) (hash_index nm)")
    case (Some e)
    from cases have "find_loop tbl1 nm tag (hash_index nm) (hash_index nm) = Some e"
    proof
      assume "tbl1 = tbl0 \<and> (\<exists>e. find_loop tbl0 (e_name x) (e_tag x) ?hx ?hx = Some e)"
      then show ?thesis using Some by simp
    next
      assume "\<exists>s. tbl0 s = None \<and> tbl1 = tbl0(s \<mapsto> x)
              \<and> find_loop tbl0 (e_name x) (e_tag x) ?hx ?hx = None
              \<and> find_loop tbl1 (e_name x) (e_tag x) ?hx ?hx = Some x"
      then obtain s where "tbl0 s = None" "tbl1 = tbl0(s \<mapsto> x)" by blast
      then show ?thesis using find_loop_stable[of tbl0 s nm tag "hash_index nm" "hash_index nm" e x] Some
        by simp
    qed
    then show ?thesis using Some by simp
  next
    case None
    show ?thesis
    proof (cases "slot_matches x nm tag")
      case True
      then have k: "nm = e_name x" "tag = e_tag x" by (simp_all add: slot_matches_def)
      from cases None k have "find_loop tbl1 nm tag (hash_index nm) (hash_index nm) = Some x"
        by auto
      then show ?thesis using None True by simp
    next
      case False
      have "find_loop tbl1 nm tag (hash_index nm) (hash_index nm) = None"
      proof (rule ccontr)
        assume "find_loop tbl1 nm tag (hash_index nm) (hash_index nm) \<noteq> None"
        then obtain e where e: "find_loop tbl1 nm tag (hash_index nm) (hash_index nm) = Some e"
          by blast
        from find_loop_Some[OF e] obtain s' where
          m: "slot_matches e nm tag" and st: "tbl1 s' = Some e" by blast
        from m False have ex: "e \<noteq> x" by auto
        have "tbl0 s' = Some e"
          using cases st ex by (auto split: if_splits)
        with Cons.prems(1) have
          "find_loop tbl0 (e_name e) (e_tag e) (hash_index (e_name e)) (hash_index (e_name e)) = Some e"
          by (simp add: table_inv_def)
        with m have "find_loop tbl0 nm tag (hash_index nm) (hash_index nm) = Some e"
          by (simp add: slot_matches_def)
        with None show False by simp
      qed
      then show ?thesis using None False by simp
    qed
  qed
  have "find_loop tbl nm tag (hash_index nm) (hash_index nm) =
             (case find_loop tbl0 nm tag (hash_index nm) (hash_index nm) of
                Some e \<Rightarrow> Some e
              | None \<Rightarrow> List.find (\<lambda>e. slot_matches e nm tag) (x # xs))" for nm tag
    unfolding IH[of nm tag] step[of nm tag]
    by (simp split: option.splits)
  with inv show ?case by blast
qed

lemma word17_of_nat_eq_0:
  assumes "0 < n" "n \<le> DIE_HASH_SIZE"
  shows "(word_of_nat n = (0 :: 17 word)) = (n = DIE_HASH_SIZE)"
proof -
  have "(word_of_nat n = (0 :: 17 word)) = (2 ^ 17 dvd n)"
    by (simp add: word_of_nat_eq_0_iff)
  also have "\<dots> = (n = 2 ^ 17)"
  proof
    assume "(2::nat) ^ 17 dvd n"
    then have "(2::nat) ^ 17 \<le> n" using assms(1) by (rule dvd_imp_le)
    with assms(2) show "n = 2 ^ 17" by (simp add: DIE_HASH_SIZE_def)
  next
    assume "n = 2 ^ 17" then show "(2::nat) ^ 17 dvd n" by simp
  qed
  finally show ?thesis by (simp add: DIE_HASH_SIZE_def)
qed

lemma find_loop_probe:
  assumes "k < DIE_HASH_SIZE"
  shows "(find_loop tbl nm tag (hash_index nm) (hash_index nm + word_of_nat k) = None) =
         (\<exists>m. k \<le> m \<and> m \<le> DIE_HASH_SIZE \<and> probe_passes tbl nm tag k m
              \<and> (m = DIE_HASH_SIZE \<or> tbl (hash_index nm + word_of_nat m) = None))"
  using assms
proof (induction "DIE_HASH_SIZE - k" arbitrary: k)
  case 0
  then show ?case by simp
next
  case (Suc d)
  let ?h = "hash_index nm"
  let ?i = "?h + word_of_nat k"
  let ?R = "\<lambda>k. \<exists>m. k \<le> m \<and> m \<le> DIE_HASH_SIZE \<and> probe_passes tbl nm tag k m
              \<and> (m = DIE_HASH_SIZE \<or> tbl (?h + word_of_nat m) = None)"
  have i1: "?i + 1 = ?h + word_of_nat (Suc k)" by simp
  have wrap: "(?i + 1 = ?h) = (Suc k = DIE_HASH_SIZE)"
  proof -
    have "(?i + 1 = ?h) = (word_of_nat (Suc k) = (0 :: 17 word))"
      unfolding i1 by simp
    also have "\<dots> = (Suc k = DIE_HASH_SIZE)"
      by (rule word17_of_nat_eq_0) (use Suc.prems in simp_all)
    finally show ?thesis .
  qed
  show ?case
  proof (cases "tbl ?i")
    case None
    have "probe_passes tbl nm tag k k" by (auto simp: probe_passes_def)
    with None Suc.prems have "?R k" by (intro exI[of _ k]) simp
    moreover have "find_loop tbl nm tag ?h ?i = None" using None by (rule find_loop_empty)
    ultimately show ?thesis by simp
  next
    case (Some entry)
    show ?thesis
    proof (cases "e_tag entry = tag \<and> e_name entry = nm")
      case True
      have "find_loop tbl nm tag ?h ?i = Some entry"
        using Some True find_loop_hit[of tbl ?i entry tag nm ?h] by simp
      moreover have "\<not> ?R k"
      proof
        assume "?R k"
        then obtain m where m: "k \<le> m" "m \<le> DIE_HASH_SIZE" "probe_passes tbl nm tag k m"
          "m = DIE_HASH_SIZE \<or> tbl (?h + word_of_nat m) = None" by blast
        show False
        proof (cases "m = k")
          case True
          with m(4) Some Suc.prems show False by simp
        next
          case False
          with m(1) have "k < m" by simp
          with m(3) have "\<exists>e. tbl ?i = Some e \<and> \<not> slot_matches e nm tag"
            by (simp add: probe_passes_def)
          with Some True show False by (simp add: slot_matches_def)
        qed
      qed
      ultimately show ?thesis by simp
    next
      case False
      then have nm: "\<not> slot_matches entry nm tag" by (simp add: slot_matches_def)
      have pass_k: "probe_passes tbl nm tag k (Suc k)"
        using Some nm by (auto simp: probe_passes_def le_less_Suc_eq)
      have split: "probe_passes tbl nm tag k m = probe_passes tbl nm tag (Suc k) m" if "k < m" for m
        using Some nm that
        by (auto simp: probe_passes_def) (metis Suc_leI le_neq_implies_less)
      show ?thesis
      proof (cases "Suc k = DIE_HASH_SIZE")
        case True
        then have "find_loop tbl nm tag ?h ?i = None"
          using Some False wrap find_loop_wrap[of tbl ?i entry tag nm ?h] by simp
        moreover have "?R k"
          using True pass_k by (intro exI[of _ DIE_HASH_SIZE]) simp
        ultimately show ?thesis by simp
      next
        case nw: False
        then have lt: "Suc k < DIE_HASH_SIZE" using Suc.prems by simp
        have "find_loop tbl nm tag ?h ?i = find_loop tbl nm tag ?h (?h + word_of_nat (Suc k))"
          using Some False wrap nw find_loop_step[of tbl ?i entry tag nm ?h] i1 by simp
        moreover have "(find_loop tbl nm tag ?h (?h + word_of_nat (Suc k)) = None) = ?R (Suc k)"
          by (rule Suc.hyps(1)) (use Suc.hyps(2) lt in simp_all)
        moreover have "?R k = ?R (Suc k)"
        proof
          assume "?R k"
          then obtain m where m: "k \<le> m" "m \<le> DIE_HASH_SIZE" "probe_passes tbl nm tag k m"
            "m = DIE_HASH_SIZE \<or> tbl (?h + word_of_nat m) = None" by blast
          have "m \<noteq> k" using m(4) Some Suc.prems by auto
          with m(1) have km: "k < m" by simp
          then have "probe_passes tbl nm tag (Suc k) m" using m(3) split by simp
          with km m show "?R (Suc k)" by (intro exI[of _ m]) simp
        next
          assume "?R (Suc k)"
          then obtain m where m: "Suc k \<le> m" "m \<le> DIE_HASH_SIZE" "probe_passes tbl nm tag (Suc k) m"
            "m = DIE_HASH_SIZE \<or> tbl (?h + word_of_nat m) = None" by blast
          then have "probe_passes tbl nm tag k m" using split[of m] by simp
          with m show "?R k" by (intro exI[of _ m]) simp
        qed
        ultimately show ?thesis by simp
      qed
    qed
  qed
qed

text \<open>An insertion of a pair that is found leaves the table as it is; any other successful
  insertion fills an empty slot.\<close>

lemma add_loop_duplicate:
  assumes "find_loop tbl nm tag orig_i i = Some e"
  shows "add_die_hash_entry_loop tbl nm tag cu p orig_i i = Inr tbl"
  using assms
proof (induction tbl nm tag orig_i i rule: find_loop.induct)
  case (1 tbl nm tag orig_i i)
  from "1.prems" obtain entry where en: "tbl i = Some entry"
    by (subst (asm) find_loop.simps) (auto split: option.splits)
  show ?case
  proof (cases "e_tag entry = tag \<and> e_name entry = nm")
    case True
    with en show ?thesis by (subst add_die_hash_entry_loop.simps) simp
  next
    case False
    show ?thesis
    proof (cases "i + 1 = orig_i")
      case True
      with en False "1.prems" show ?thesis by (simp add: find_loop_wrap)
    next
      case ne: False
      from en False ne "1.prems" have "find_loop tbl nm tag orig_i (i + 1) = Some e"
        by (simp add: find_loop_step)
      from "1.IH"[OF en False ne this]
      have "add_die_hash_entry_loop tbl nm tag cu p orig_i (i + 1) = Inr tbl" .
      with en False ne show ?thesis by (subst add_die_hash_entry_loop.simps) auto
    qed
  qed
qed

lemma add_duplicate:
  assumes "DwarfIndex_find tbl nm tag = Inr e"
  shows "add_die_hash_entry tbl nm tag cu p = Inr tbl"
proof -
  from assms have "find_loop tbl nm tag (hash_index nm) (hash_index nm) = Some e"
    by (simp add: DwarfIndex_find_def split: option.splits)
  then show ?thesis unfolding add_die_hash_entry_def by (rule add_loop_duplicate)
qed

lemma add_new:
  assumes "add_die_hash_entry tbl nm tag cu p = Inr tbl'"
    and "DwarfIndex_find tbl nm tag = Inl (ValueError ''DIE not found'')"
  shows "\<exists>s. tbl s = None
           \<and> tbl' = tbl(s \<mapsto> \<lparr> e_name = nm, e_tag = tag, e_cu = cu, e_ptr = p \<rparr>)
           \<and> DwarfIndex_find tbl' nm tag = Inr \<lparr> e_name = nm, e_tag = tag, e_cu = cu, e_ptr = p \<rparr>"
proof -
  from assms(2) have n: "find_loop tbl nm tag (hash_index nm) (hash_index nm) = None"
    by (simp add: DwarfIndex_find_def split: option.splits)
  from assms(1) have "add_die_hash_entry_loop tbl nm tag cu p (hash_index nm) (hash_index nm) = Inr tbl'"
    by (simp add: add_die_hash_entry_def)
  from add_loop_cases[OF this] n show ?thesis
    by (auto simp: DwarfIndex_find_def)
qed

lemma example_hashes:
  "hash_index name_foo = 29577" "hash_index name_euyq = 29577" "hash_index name_bar = 24762"
  by (simp_all add: hash_index_def name_hash_def DIE_HASH_MASK_def name_foo_def name_euyq_def
      name_bar_def)

lemma example_names_distinct:
  "name_foo \<noteq> name_euyq" "name_euyq \<noteq> name_foo"
  by (simp_all add: name_foo_def name_euyq_def)


section \<open>Evaluation of the DIE loop on the example files\<close>

text \<open>The equations that evaluate one step of the DIE loop on concrete bytes.\<close>

lemmas index_eval =
  index_cu_def index_cu_step_def cu_end_def run_cmds.simps exec_cmd_def
  read_u8_into_size_t_def read_u16_into_size_t_def read_u32_into_size_t_def
  read_u64_into_size_t_def read_uleb128_into_size_t_def skip_bytes_def read_then_skip_def
  skip_leb128.simps memchr0.simps skip_string_def sibling_ref_def cmd_byte_def
  read_u8_def read_u16_def read_u32_def read_u64_def
  load_u8_def load_u16_def load_u32_def load_u64_def in_bounds_def
  read_uleb128_def read_uleb128_loop.simps ATTRIB_defs mem_of_def Let_def

subsection \<open>The unit whose DIE names itself as its sibling\<close>

lemma self_sibling_step:
  "index_cu_step self_sibling_mem (f_debug_str self_sibling_file) self_sibling_cu
     (cu_end self_sibling_cu) tbl 11 0 = Inr (Continue 11 0 tbl)"
  by (simp add: index_eval self_sibling_mem_def self_sibling_file_def self_sibling_cu_def)

lemma self_sibling_loop:
  "index_cu_loop fuel self_sibling_mem (f_debug_str self_sibling_file) self_sibling_cu
     (cu_end self_sibling_cu) tbl 11 0 = None"
  by (induction fuel) (simp_all add: self_sibling_step)


lemma self_sibling_header:
  "read_compilation_unit_header self_sibling_mem 0 16 =
     Inr \<lparr> cu_ptr = 0, unit_length = 12, version = 4, debug_abbrev_offset = 0,
       address_size = 8, is_64_bit = False, abbrev_decls = [] \<rparr>"
  by (simp add: read_compilation_unit_header_def read_u8_def read_u16_def read_u32_def read_u64_def
      load_u8_def load_u16_def load_u32_def load_u64_def in_bounds_def mem_of_def
      self_sibling_mem_def Let_def)

lemma self_sibling_table:
  "read_abbrev_table self_sibling_mem 16 24
     \<lparr> cu_ptr = 0, unit_length = 12, version = 4, debug_abbrev_offset = 0,
       address_size = 8, is_64_bit = False, abbrev_decls = [] \<rparr> = Inr self_sibling_cu"
  by (simp add: abbrev_eval self_sibling_mem_def self_sibling_cu_def)

lemma self_sibling_read_cus:
  "read_cus (Suc (Suc n)) self_sibling_mem self_sibling_file = Some (Inr [self_sibling_cu])"
  "read_cus (Suc 0) self_sibling_mem self_sibling_file = None"
  "read_cus 0 self_sibling_mem self_sibling_file = None"
  by (simp_all add: read_cus_def self_sibling_file_def self_sibling_header self_sibling_table
      Let_def self_sibling_cu_def)

lemma self_sibling_relocate:
  "relocate_file self_sibling_mem self_sibling_file = Inr self_sibling_mem"
  by (simp add: relocate_file_def apply_relocations_def apply_relocations_loop.simps
      self_sibling_file_def no_section_def Let_def)

lemma self_sibling_index_cu:
  "index_cu fuel self_sibling_mem (f_debug_str self_sibling_file) self_sibling_cu tbl = None"
  using self_sibling_loop[of fuel tbl]
  by (simp add: index_cu_def self_sibling_cu_def)

subsection \<open>The unit with address size 0\<close>

lemma zero_addr_header:
  "read_compilation_unit_header zero_addr_mem 0 19 =
     Inr \<lparr> cu_ptr = 0, unit_length = 15, version = 4, debug_abbrev_offset = 0,
       address_size = 0, is_64_bit = False, abbrev_decls = [] \<rparr>"
  by (simp add: read_compilation_unit_header_def read_u8_def read_u16_def read_u32_def read_u64_def
      load_u8_def load_u16_def load_u32_def load_u64_def in_bounds_def mem_of_def
      zero_addr_mem_def Let_def)

lemma zero_addr_table:
  "read_abbrev_table zero_addr_mem 19 38
     \<lparr> cu_ptr = 0, unit_length = 15, version = 4, debug_abbrev_offset = 0,
       address_size = 0, is_64_bit = False, abbrev_decls = [] \<rparr> = Inr zero_addr_cu"
  by (simp add: abbrev_eval zero_addr_mem_def zero_addr_cu_def)

lemma zero_addr_read_cus:
  "read_cus (Suc (Suc n)) zero_addr_mem zero_addr_file = Some (Inr [zero_addr_cu])"
  by (simp add: read_cus_def zero_addr_file_def zero_addr_header zero_addr_table
      Let_def zero_addr_cu_def)

lemma zero_addr_relocate:
  "relocate_file zero_addr_mem zero_addr_file = Inr zero_addr_mem"
  by (simp add: relocate_file_def apply_relocations_def apply_relocations_loop.simps
      zero_addr_file_def no_section_def Let_def)

lemma zero_addr_name: "c_string zero_addr_mem 13 = name_foo"
  by (simp add: c_string.simps zero_addr_mem_def mem_of_def name_foo_def)

lemma zero_addr_step1:
  "index_cu_step zero_addr_mem (f_debug_str zero_addr_file) zero_addr_cu 19 tbl 11 0
     = Inr (Continue 12 1 tbl)"
  by (simp add: index_eval zero_addr_mem_def zero_addr_file_def zero_addr_cu_def)

lemma zero_addr_step2:
  "index_cu_step zero_addr_mem (f_debug_str zero_addr_file) zero_addr_cu 19 empty_die_hash 12 1
     = Inr (Continue 17 1
         (empty_die_hash(29577 \<mapsto> \<lparr> e_name = name_foo, e_tag = 243, e_cu = 0, e_ptr = 12 \<rparr>)))"
proof -
  have a: "add_die_hash_entry empty_die_hash name_foo 243 0 12
         = Inr (empty_die_hash(29577 \<mapsto> \<lparr> e_name = name_foo, e_tag = 243, e_cu = 0, e_ptr = 12 \<rparr>))"
    by (simp add: add_die_hash_entry_def add_die_hash_entry_loop.simps example_hashes
        empty_die_hash_def)
  have r: "run_cmds zero_addr_mem zero_addr_cu 19 (f_debug_str zero_addr_file)
             [ATTRIB_NAME_STRING, 0, ATTRIB_BLOCK1, 0, 0, 0] (13, None, None)
           = Inr ((17, Some 13, None), [ATTRIB_BLOCK1, 0, 0, 0])"
    by (simp add: index_eval zero_addr_mem_def)
  have c: "read_uleb128 zero_addr_mem 12 19 = Inr (2, 13)"
    by (simp add: read_uleb128_def read_uleb128_loop.simps zero_addr_mem_def mem_of_def)
  have d: "cmds (abbrev_decls zero_addr_cu ! Suc 0)
             = [ATTRIB_NAME_STRING, 0, ATTRIB_BLOCK1, 0, 0, 0]"
    "length (abbrev_decls zero_addr_cu) = 2" "cu_ptr zero_addr_cu = 0"
    by (simp_all add: zero_addr_cu_def)
  have t: "cmd_byte [ATTRIB_BLOCK1, 0, 0, 0] 0 = 243" "cmd_byte [ATTRIB_BLOCK1, 0, 0, 0] (Suc 0) = 0"
    by (simp_all add: cmd_byte_def ATTRIB_defs)
  show ?thesis
    by (simp add: index_cu_step_def c r a d t zero_addr_name del: run_cmds.simps)
qed

lemma zero_addr_step3:
  "index_cu_step zero_addr_mem (f_debug_str zero_addr_file) zero_addr_cu 19 tbl 17 1
     = Inr (Done tbl)"
  by (simp add: index_eval zero_addr_mem_def zero_addr_file_def zero_addr_cu_def)

lemma zero_addr_index_cu:
  "index_cu (Suc (Suc (Suc n))) zero_addr_mem (f_debug_str zero_addr_file) zero_addr_cu empty_die_hash
     = Some (Inr (empty_die_hash(29577 \<mapsto>
          \<lparr> e_name = name_foo, e_tag = 243, e_cu = 0, e_ptr = 12 \<rparr>)))"
proof -
  have e: "cu_end zero_addr_cu = 19" "cu_ptr zero_addr_cu = 0" "is_64_bit zero_addr_cu = False"
    by (simp_all add: cu_end_def zero_addr_cu_def)
  show ?thesis
    by (simp add: index_cu_def e zero_addr_step1 zero_addr_step2 zero_addr_step3)
qed

lemma zero_addr_attribs:
  "read_attribs zero_addr_mem 27 38
     \<lparr> cu_ptr = 0, unit_length = 15, version = 4, debug_abbrev_offset = 0,
       address_size = 0, is_64_bit = False, abbrev_decls = [\<lparr> cmds = [0, 0, 1] \<rparr>] \<rparr>
     (filter_tag DW_TAG_structure_type) []
   = Inr (37, 0, [ATTRIB_NAME_STRING, 0, ATTRIB_BLOCK1])"
  by (simp add: abbrev_eval zero_addr_mem_def)

subsection \<open>The unit whose name is an offset into the string section\<close>

lemma exec_name_strp:
  assumes "exec_cmd m cu endp dstr ATTRIB_NAME_STRP (ptr, name0, sib0) = Inr (p, name, sib)"
  shows "\<exists>tmp. name = Some (buffer dstr + tmp) \<and> tmp \<le> unat (size_sec dstr) \<and> sib = sib0"
  using assms
  by (auto simp: exec_cmd_def ATTRIB_defs in_bounds_def split: sum.splits if_splits)

lemma strp_header:
  "read_compilation_unit_header strp_mem 0 22 =
     Inr \<lparr> cu_ptr = 0, unit_length = 18, version = 4, debug_abbrev_offset = 0,
       address_size = 8, is_64_bit = False, abbrev_decls = [] \<rparr>"
  by (simp add: read_compilation_unit_header_def read_u8_def read_u16_def read_u32_def read_u64_def
      load_u8_def load_u16_def load_u32_def load_u64_def in_bounds_def mem_of_def
      strp_mem_def Let_def)

lemma strp_table:
  "read_abbrev_table strp_mem 22 37
     \<lparr> cu_ptr = 0, unit_length = 18, version = 4, debug_abbrev_offset = 0,
       address_size = 8, is_64_bit = False, abbrev_decls = [] \<rparr> = Inr strp_cu"
  by (simp add: abbrev_eval strp_mem_def strp_cu_def)

lemma strp_read_cus:
  "read_cus (Suc (Suc n)) strp_mem strp_file = Some (Inr [strp_cu])"
  by (simp add: read_cus_def strp_file_def strp_header strp_table Let_def strp_cu_def)

lemma strp_relocate:
  "relocate_file strp_mem strp_file = Inr strp_mem"
  "relocate_file strp_mem strp_file_cut = Inr strp_mem"
  by (simp_all add: relocate_file_def apply_relocations_def apply_relocations_loop.simps
      strp_file_def strp_file_cut_def no_section_def Let_def)

lemma strp_name: "c_string strp_mem 37 = name_foo"
  by (simp add: c_string.simps strp_mem_def mem_of_def name_foo_def)

lemma strp_step1:
  "index_cu_step strp_mem (f_debug_str strp_file) strp_cu 22 tbl 11 0
     = Inr (Continue 12 1 tbl)"
  by (simp add: index_eval strp_mem_def strp_file_def strp_cu_def)

lemma strp_exec:
  "exec_cmd strp_mem strp_cu 22 (f_debug_str strp_file) ATTRIB_NAME_STRP (13, None, None)
     = Inr (17, Some 37, None)"
  by (simp add: index_eval strp_mem_def strp_file_def strp_cu_def)

lemma strp_step2:
  "index_cu_step strp_mem (f_debug_str strp_file) strp_cu 22 empty_die_hash 12 1
     = Inr (Continue 21 1
         (empty_die_hash(29577 \<mapsto>
            \<lparr> e_name = name_foo, e_tag = DW_TAG_variable, e_cu = 0, e_ptr = 12 \<rparr>)))"
proof -
  have a: "add_die_hash_entry empty_die_hash name_foo 0x34 0 12
         = Inr (empty_die_hash(29577 \<mapsto>
             \<lparr> e_name = name_foo, e_tag = DW_TAG_variable, e_cu = 0, e_ptr = 12 \<rparr>))"
    by (simp add: add_die_hash_entry_def add_die_hash_entry_loop.simps example_hashes
        empty_die_hash_def DW_TAG_defs)
  have r: "run_cmds strp_mem strp_cu 22 (f_debug_str strp_file)
             [ATTRIB_NAME_STRP, 4, 0, 0x34, 0] (13, None, None)
           = Inr ((21, Some 37, None), [0x34, 0])"
    by (simp add: index_eval strp_mem_def strp_file_def strp_cu_def)
  have c: "read_uleb128 strp_mem 12 22 = Inr (2, 13)"
    by (simp add: read_uleb128_def read_uleb128_loop.simps strp_mem_def mem_of_def)
  have d: "cmds (abbrev_decls strp_cu ! Suc 0) = [ATTRIB_NAME_STRP, 4, 0, 0x34, 0]"
    "length (abbrev_decls strp_cu) = 2" "cu_ptr strp_cu = 0"
    by (simp_all add: strp_cu_def)
  have t: "cmd_byte [0x34, 0] 0 = 0x34" "cmd_byte [0x34, 0] (Suc 0) = 0"
    by (simp_all add: cmd_byte_def)
  show ?thesis
    by (simp add: index_cu_step_def c r a d t strp_name del: run_cmds.simps)
qed

lemma strp_step3:
  "index_cu_step strp_mem (f_debug_str strp_file) strp_cu 22 tbl 21 1 = Inr (Done tbl)"
  by (simp add: index_eval strp_mem_def strp_file_def strp_cu_def)

lemma strp_index_cu:
  "index_cu (Suc (Suc (Suc n))) strp_mem (f_debug_str strp_file) strp_cu empty_die_hash
     = Some (Inr (empty_die_hash(29577 \<mapsto>
          \<lparr> e_name = name_foo, e_tag = DW_TAG_variable, e_cu = 0, e_ptr = 12 \<rparr>)))"
proof -
  have e: "cu_end strp_cu = 22" "cu_ptr strp_cu = 0" "is_64_bit strp_cu = False"
    by (simp_all add: cu_end_def strp_cu_def)
  show ?thesis
    by (simp add: index_cu_def e strp_step1 strp_step2 strp_step3)
qed

lemma strp_init:
  "DwarfIndex_init_file 3 strp_mem empty_die_hash strp_file
      = Some (Inr (strp_mem, strp_file\<lparr>f_cus := [strp_cu]\<rparr>,
                   empty_die_hash(29577 \<mapsto>
                     \<lparr> e_name = name_foo, e_tag = DW_TAG_variable, e_cu = 0, e_ptr = 12 \<rparr>)))"
proof -
  have t: "strp_mem 40 = 0" "size_sec (f_debug_str strp_file) = 4"
    "buffer (f_debug_str strp_file) = 37"
    by (simp_all add: strp_mem_def mem_of_def strp_file_def)
  have "DwarfIndex_init_file (Suc (Suc (Suc 0))) strp_mem empty_die_hash strp_file
      = Some (Inr (strp_mem, strp_file\<lparr>f_cus := [strp_cu]\<rparr>,
                   empty_die_hash(29577 \<mapsto>
                     \<lparr> e_name = name_foo, e_tag = DW_TAG_variable, e_cu = 0, e_ptr = 12 \<rparr>)))"
    by (simp add: DwarfIndex_init_file_def strp_relocate t strp_read_cus
        strp_index_cu del: index_cu_loop.simps read_cus_loop.simps)
  then show ?thesis by (simp only: numeral_3_eq_3)
qed


section \<open>Claim C1: the first insertion of a pair is the one found\<close>

text \<open>
  C1: after a sequence of successful insertions into the empty table, \<open>find(name, tag)\<close>
  returns the first entry inserted with this name and tag, and raises the not-found
  \<open>ValueError\<close> when no entry was inserted for the pair. On any table, \<open>find\<close> raises
  the not-found error exactly when the linear probe sequence that starts at the DJB2
  hash of the name, masked to 17 bits, passes only slots occupied by entries of another
  tag or name until it reaches an empty slot or has walked the whole table. A later
  duplicate is discarded: the insertion of a pair that \<open>find\<close> finds succeeds and
  leaves the table unchanged, whatever unit and DIE it names. A successful insertion of
  a pair that \<open>find\<close> does not find fills one empty slot with the new entry, which
  \<open>find\<close> returns from then on.
\<close>

theorem die_hash_first_insertion_wins:
  "(\<forall>tbl. add_entries empty_die_hash es = Inr tbl \<longrightarrow>
      (\<forall>nm tag. DwarfIndex_find tbl nm tag =
         (case List.find (\<lambda>e. slot_matches e nm tag) es of
            Some e \<Rightarrow> Inr e
          | None \<Rightarrow> Inl (ValueError ''DIE not found''))))
   \<and> (\<forall>tbl nm tag.
        (DwarfIndex_find tbl nm tag = Inl (ValueError ''DIE not found'')) =
        (\<exists>m. m \<le> DIE_HASH_SIZE \<and> probe_passes tbl nm tag 0 m
             \<and> (m = DIE_HASH_SIZE \<or> tbl (hash_index nm + word_of_nat m) = None)))
   \<and> (\<forall>tbl nm tag e cu p.
        DwarfIndex_find tbl nm tag = Inr e \<longrightarrow> add_die_hash_entry tbl nm tag cu p = Inr tbl)
   \<and> (\<forall>tbl nm tag cu p tbl'.
        add_die_hash_entry tbl nm tag cu p = Inr tbl'
        \<and> DwarfIndex_find tbl nm tag = Inl (ValueError ''DIE not found'') \<longrightarrow>
        (\<exists>s. tbl s = None
            \<and> tbl' = tbl(s \<mapsto> \<lparr> e_name = nm, e_tag = tag, e_cu = cu, e_ptr = p \<rparr>)
            \<and> DwarfIndex_find tbl' nm tag
                = Inr \<lparr> e_name = nm, e_tag = tag, e_cu = cu, e_ptr = p \<rparr>))"
proof (intro conjI allI impI)
  fix tbl nm tag
  assume a: "add_entries empty_die_hash es = Inr tbl"
  have e: "find_loop empty_die_hash nm tag (hash_index nm) (hash_index nm) = None"
    by (rule find_loop_empty) (simp add: empty_die_hash_def)
  from add_entries_find[OF table_inv_empty a]
  have "find_loop tbl nm tag (hash_index nm) (hash_index nm)
          = List.find (\<lambda>e. slot_matches e nm tag) es"
    using e by simp
  then show "DwarfIndex_find tbl nm tag =
         (case List.find (\<lambda>e. slot_matches e nm tag) es of
            Some e \<Rightarrow> Inr e
          | None \<Rightarrow> Inl (ValueError ''DIE not found''))"
    by (simp add: DwarfIndex_find_def)
next
  fix tbl nm tag
  have "(DwarfIndex_find tbl nm tag = Inl (ValueError ''DIE not found''))
        = (find_loop tbl nm tag (hash_index nm) (hash_index nm + word_of_nat 0) = None)"
    by (simp add: DwarfIndex_find_def split: option.splits)
  also have "\<dots> = (\<exists>m. 0 \<le> m \<and> m \<le> DIE_HASH_SIZE \<and> probe_passes tbl nm tag 0 m
             \<and> (m = DIE_HASH_SIZE \<or> tbl (hash_index nm + word_of_nat m) = None))"
    by (rule find_loop_probe) (simp add: DIE_HASH_SIZE_def)
  finally show "(DwarfIndex_find tbl nm tag = Inl (ValueError ''DIE not found'')) =
        (\<exists>m. m \<le> DIE_HASH_SIZE \<and> probe_passes tbl nm tag 0 m
             \<and> (m = DIE_HASH_SIZE \<or> tbl (hash_index nm + word_of_nat m) = None))"
    by simp
next
  fix tbl nm tag e cu p
  assume "DwarfIndex_find tbl nm tag = Inr e"
  then show "add_die_hash_entry tbl nm tag cu p = Inr tbl" by (rule add_duplicate)
next
  fix tbl nm tag cu p tbl'
  assume "add_die_hash_entry tbl nm tag cu p = Inr tbl'
        \<and> DwarfIndex_find tbl nm tag = Inl (ValueError ''DIE not found'')"
  then show "\<exists>s. tbl s = None
            \<and> tbl' = tbl(s \<mapsto> \<lparr> e_name = nm, e_tag = tag, e_cu = cu, e_ptr = p \<rparr>)
            \<and> DwarfIndex_find tbl' nm tag
                = Inr \<lparr> e_name = nm, e_tag = tag, e_cu = cu, e_ptr = p \<rparr>"
    using add_new by blast
qed


text \<open>
  The theorem on four insertions: \<open>foo\<close> as a variable, \<open>euyq\<close> (same hash index) as
  a variable, \<open>foo\<close> as a variable again from another unit, and \<open>foo\<close> as a typedef.
  The table holds three entries; a fifth insertion, of \<open>foo\<close> as a variable from a
  third unit, leaves it unchanged, and one of \<open>bar\<close> fills the slot of its hash index.
\<close>

theorem die_hash_first_insertion_wins_witness:
  "(case add_entries empty_die_hash example_entries of
      Inl e \<Rightarrow> False
    | Inr tbl \<Rightarrow>
        DwarfIndex_find tbl name_foo DW_TAG_variable
          = Inr \<lparr> e_name = name_foo, e_tag = DW_TAG_variable, e_cu = 0, e_ptr = 11 \<rparr>
        \<and> DwarfIndex_find tbl name_euyq DW_TAG_variable
          = Inr \<lparr> e_name = name_euyq, e_tag = DW_TAG_variable, e_cu = 0, e_ptr = 20 \<rparr>
        \<and> DwarfIndex_find tbl name_foo DW_TAG_typedef
          = Inr \<lparr> e_name = name_foo, e_tag = DW_TAG_typedef, e_cu = 0, e_ptr = 30 \<rparr>
        \<and> DwarfIndex_find tbl name_bar DW_TAG_variable = Inl (ValueError ''DIE not found'')
        \<and> tbl 29577 = Some \<lparr> e_name = name_foo, e_tag = DW_TAG_variable, e_cu = 0, e_ptr = 11 \<rparr>
        \<and> tbl 29578 = Some \<lparr> e_name = name_euyq, e_tag = DW_TAG_variable, e_cu = 0, e_ptr = 20 \<rparr>
        \<and> tbl 29579 = Some \<lparr> e_name = name_foo, e_tag = DW_TAG_typedef, e_cu = 0, e_ptr = 30 \<rparr>
        \<and> add_die_hash_entry tbl name_foo DW_TAG_variable 128 139 = Inr tbl
        \<and> add_die_hash_entry tbl name_bar DW_TAG_variable 128 150
          = Inr (tbl(24762 \<mapsto>
               \<lparr> e_name = name_bar, e_tag = DW_TAG_variable, e_cu = 128, e_ptr = 150 \<rparr>))
        \<and> (\<exists>s. tbl s = None
             \<and> tbl(24762 \<mapsto>
                  \<lparr> e_name = name_bar, e_tag = DW_TAG_variable, e_cu = 128, e_ptr = 150 \<rparr>)
               = tbl(s \<mapsto>
                  \<lparr> e_name = name_bar, e_tag = DW_TAG_variable, e_cu = 128, e_ptr = 150 \<rparr>)))"
proof -
  let ?e1 = "\<lparr> e_name = name_foo, e_tag = DW_TAG_variable, e_cu = 0, e_ptr = 11 \<rparr>"
  let ?e2 = "\<lparr> e_name = name_euyq, e_tag = DW_TAG_variable, e_cu = 0, e_ptr = 20 \<rparr>"
  let ?e4 = "\<lparr> e_name = name_foo, e_tag = DW_TAG_typedef, e_cu = 0, e_ptr = 30 \<rparr>"
  let ?e5 = "\<lparr> e_name = name_bar, e_tag = DW_TAG_variable, e_cu = 128, e_ptr = 150 \<rparr>"
  let ?tbl = "empty_die_hash(29577 \<mapsto> ?e1, 29578 \<mapsto> ?e2, 29579 \<mapsto> ?e4)"
  have ev: "add_entries empty_die_hash example_entries = Inr ?tbl"
    by (simp add: example_entries_def add_die_hash_entry_def add_die_hash_entry_loop.simps
        example_hashes example_names_distinct empty_die_hash_def DW_TAG_defs)
  have nd: "name_bar \<noteq> name_foo" "name_bar \<noteq> name_euyq"
    "name_foo \<noteq> name_bar" "name_euyq \<noteq> name_bar"
    by (simp_all add: name_foo_def name_euyq_def name_bar_def)
  note thm1 = die_hash_first_insertion_wins[of example_entries]
  from thm1 ev
  have f: "DwarfIndex_find ?tbl nm tag =
         (case List.find (\<lambda>e. slot_matches e nm tag) example_entries of
            Some e \<Rightarrow> Inr e
          | None \<Rightarrow> Inl (ValueError ''DIE not found''))" for nm tag
    by blast
  have r: "DwarfIndex_find ?tbl name_foo DW_TAG_variable = Inr ?e1"
    "DwarfIndex_find ?tbl name_euyq DW_TAG_variable = Inr ?e2"
    "DwarfIndex_find ?tbl name_foo DW_TAG_typedef = Inr ?e4"
    "DwarfIndex_find ?tbl name_bar DW_TAG_variable = Inl (ValueError ''DIE not found'')"
    unfolding f
    by (simp_all add: example_entries_def slot_matches_def example_names_distinct nd DW_TAG_defs)
  from thm1 r(1) have dup: "add_die_hash_entry ?tbl name_foo DW_TAG_variable 128 139 = Inr ?tbl"
    by blast
  have new: "add_die_hash_entry ?tbl name_bar DW_TAG_variable 128 150 = Inr (?tbl(24762 \<mapsto> ?e5))"
    by (simp add: add_die_hash_entry_def add_die_hash_entry_loop.simps
        example_hashes empty_die_hash_def)
  from thm1 new r(4)
  have slot: "\<exists>s. ?tbl s = None \<and> ?tbl(24762 \<mapsto> ?e5) = ?tbl(s \<mapsto> ?e5)"
    by blast
  from r dup new slot show ?thesis unfolding ev by (simp add: empty_die_hash_def)
qed

section \<open>Claim C2: which DIEs are indexed\<close>

text \<open>
  C2 says that a DIE is inserted exactly when it is at depth 1, has a name and the
  filtered tag of its abbreviation is not zero, and that a \<open>DW_AT_declaration\<close>
  attribute makes the filtered tag of a type zero. The code reads the tag as the
  byte that follows the first zero byte of the compiled commands. A
  \<open>DW_FORM_addr\<close> attribute is compiled to the literal skip \<open>address_size\<close>, taken
  from the unit header without any check, so in a unit with address size 0 it is
  compiled to a zero byte, and the interpreter stops there and takes the next
  command for the tag. On the file \<open>zero_addr_file\<close> the abbreviation of the
  structure declaration \<open>foo\<close> has the filtered tag 0 (the second component of the
  result of \<open>read_attribs\<close>), and the construction of the index succeeds with \<open>foo\<close>
  inserted under the tag 243, which is the command \<open>ATTRIB_BLOCK1\<close>.
\<close>

theorem declaration_indexed_when_address_size_zero:
  "read_cus 2 zero_addr_mem zero_addr_file = Some (Inr [zero_addr_cu])
   \<and> read_attribs zero_addr_mem 27 38
        \<lparr> cu_ptr = 0, unit_length = 15, version = 4, debug_abbrev_offset = 0,
          address_size = 0, is_64_bit = False, abbrev_decls = [\<lparr> cmds = [0, 0, 1] \<rparr>] \<rparr>
        (filter_tag DW_TAG_structure_type) []
      = Inr (37, 0, [ATTRIB_NAME_STRING, 0, ATTRIB_BLOCK1])
   \<and> DwarfIndex_init_file 3 zero_addr_mem empty_die_hash zero_addr_file
      = Some (Inr (zero_addr_mem, zero_addr_file\<lparr>f_cus := [zero_addr_cu]\<rparr>,
                   empty_die_hash(29577 \<mapsto>
                     \<lparr> e_name = name_foo, e_tag = 243, e_cu = 0, e_ptr = 12 \<rparr>)))"
proof -
  have a: "read_cus 2 zero_addr_mem zero_addr_file = Some (Inr [zero_addr_cu])"
    using zero_addr_read_cus[of 0] by (simp only: numeral_2_eq_2)
  have t: "zero_addr_mem 38 = 0" "size_sec (f_debug_str zero_addr_file) = 1"
    "buffer (f_debug_str zero_addr_file) = 38"
    by (simp_all add: zero_addr_mem_def mem_of_def zero_addr_file_def)
  have c: "DwarfIndex_init_file (Suc (Suc (Suc 0))) zero_addr_mem empty_die_hash zero_addr_file
      = Some (Inr (zero_addr_mem, zero_addr_file\<lparr>f_cus := [zero_addr_cu]\<rparr>,
                   empty_die_hash(29577 \<mapsto>
                     \<lparr> e_name = name_foo, e_tag = 243, e_cu = 0, e_ptr = 12 \<rparr>)))"
    by (simp add: DwarfIndex_init_file_def zero_addr_relocate t zero_addr_read_cus
        zero_addr_index_cu del: index_cu_loop.simps read_cus_loop.simps)
  have "DwarfIndex_init_file 3 zero_addr_mem empty_die_hash zero_addr_file
      = Some (Inr (zero_addr_mem, zero_addr_file\<lparr>f_cus := [zero_addr_cu]\<rparr>,
                   empty_die_hash(29577 \<mapsto>
                     \<lparr> e_name = name_foo, e_tag = 243, e_cu = 0, e_ptr = 12 \<rparr>)))"
    using c by (simp only: numeral_3_eq_3)
  with a zero_addr_attribs show ?thesis by blast
qed


section \<open>Claim C3: what relocation leaves in the section\<close>




section \<open>Claim C4: termination of the DIE loop\<close>

text \<open>
  C4 says that \<open>index_cu\<close> returns on every unit: with success or with an error. The
  code does not: a sibling pointer is only checked to lie between the start of the
  unit and its end, so a DIE with children whose \<open>DW_AT_sibling\<close> is its own offset
  sends the loop back to that DIE at the same depth, with the same table, for ever.
  On the file \<open>self_sibling_file\<close> the unit header and the abbreviation table are
  read without error, and then neither \<open>index_cu\<close> nor the construction of the index
  returns, whatever the number of iterations allowed.
\<close>

theorem index_cu_self_sibling_diverges:
  "read_cus 2 self_sibling_mem self_sibling_file = Some (Inr [self_sibling_cu])
   \<and> (\<forall>fuel tbl. index_cu fuel self_sibling_mem (f_debug_str self_sibling_file)
                     self_sibling_cu tbl = None)
   \<and> (\<forall>fuel tbl. DwarfIndex_init_file fuel self_sibling_mem tbl self_sibling_file = None)"
proof -
  have a: "read_cus 2 self_sibling_mem self_sibling_file = Some (Inr [self_sibling_cu])"
    using self_sibling_read_cus(1)[of 0] by (simp only: numeral_2_eq_2)
  have t: "self_sibling_mem 24 = 0" "size_sec (f_debug_str self_sibling_file) = 1"
    "buffer (f_debug_str self_sibling_file) = 24"
    by (simp_all add: self_sibling_mem_def mem_of_def self_sibling_file_def)
  have c: "DwarfIndex_init_file fuel self_sibling_mem tbl self_sibling_file = None" for fuel tbl
  proof (cases fuel)
    case 0
    then show ?thesis
      by (simp add: DwarfIndex_init_file_def self_sibling_relocate t self_sibling_read_cus)
  next
    case (Suc m)
    show ?thesis
    proof (cases m)
      case 0
      then show ?thesis using Suc
        by (simp add: DwarfIndex_init_file_def self_sibling_relocate t self_sibling_read_cus)
    next
      case (Suc n)
      then show ?thesis using \<open>fuel = Suc m\<close>
        by (simp add: DwarfIndex_init_file_def self_sibling_relocate t self_sibling_read_cus
            self_sibling_index_cu)
    qed
  qed
  from a self_sibling_index_cu c show ?thesis by blast
qed


section \<open>Claim C5: when read_uleb128 raises Overflow\<close>

text \<open>
  C5, as stated, says that \<open>read_uleb128\<close> raises Overflow exactly when the encoding
  denotes a value that does not fit in 64 bits. The guard of the loop is
  \<open>shift == 63 && byte > 1\<close>: it refuses every tenth byte greater than 1, also a
  continuation byte of an encoding that is merely padded. The eleven bytes
  \<open>80 80 80 80 80 80 80 80 80 80 00\<close> encode the value 0, and the code raises Overflow
  on them.
\<close>

theorem read_uleb128_overflow_counterexample:
  "read_uleb128 (mem_of [0x80, 0x80, 0x80, 0x80, 0x80, 0x80, 0x80, 0x80, 0x80, 0x80, 0x00]) 0 11
     = Inl (OverflowError ''ULEB128 overflowed unsigned 64-bit integer'')
   \<and> uleb128_value (bytes_at (mem_of [0x80, 0x80, 0x80, 0x80, 0x80, 0x80, 0x80, 0x80, 0x80, 0x80, 0x00]) 0 11)
     = Some 0"
  by (simp add: read_uleb128_def read_uleb128_loop.simps mem_of_def bytes_at_def upt_conv_Cons)

text \<open>
  C5, amended: \<open>read_uleb128\<close> raises Overflow if and only if nine continuation
  bytes are followed, before the end, by a tenth byte greater than 1. Otherwise it raises
  EOF when no byte with a clear high bit is available before the end, and else returns
  the standard base-128 little-endian value and the position just past the first byte
  whose high bit is clear; that value is then below \<open>2 ^ 64\<close> and its encoding at
  most ten bytes long, so nothing is lost in the 64-bit result. In particular every
  complete encoding of a value that does not fit in 64 bits raises Overflow.
\<close>

theorem read_uleb128_characterisation:
  "read_uleb128 mem ptr endp =
     (if uleb128_tenth_byte_refused mem ptr endp
      then Inl (OverflowError ''ULEB128 overflowed unsigned 64-bit integer'')
      else case uleb128_value (bytes_at mem ptr endp) of
             None \<Rightarrow> Inl EOFError
           | Some v \<Rightarrow> Inr (word_of_nat v, ptr + uleb128_length (bytes_at mem ptr endp)))
   \<and> (\<forall>v. uleb128_value (bytes_at mem ptr endp) = Some v \<longrightarrow>
          (if uleb128_tenth_byte_refused mem ptr endp then True
           else v < 2 ^ 64 \<and> uleb128_length (bytes_at mem ptr endp) \<le> 10))
   \<and> (\<forall>v. uleb128_value (bytes_at mem ptr endp) = Some v \<and> v \<ge> 2 ^ 64 \<longrightarrow>
          read_uleb128 mem ptr endp = Inl (OverflowError ''ULEB128 overflowed unsigned 64-bit integer''))"
proof -
  have A: "read_uleb128 mem ptr endp =
     (if uleb128_tenth_byte_refused mem ptr endp
      then Inl (OverflowError ''ULEB128 overflowed unsigned 64-bit integer'')
      else case uleb128_value (bytes_at mem ptr endp) of
             None \<Rightarrow> Inl EOFError
           | Some v \<Rightarrow> Inr (word_of_nat v, ptr + uleb128_length (bytes_at mem ptr endp)))"
  proof -
    have "read_uleb128_loop mem ptr endp (7 * 0) 0 =
     (if refused_from mem ptr endp 0
      then Inl (OverflowError ''ULEB128 overflowed unsigned 64-bit integer'')
      else case uleb128_value (bytes_at mem ptr endp) of
             None \<Rightarrow> Inl EOFError
           | Some v \<Rightarrow> Inr (0 + word_of_nat (v * 2 ^ (7 * 0)),
                            ptr + uleb128_length (bytes_at mem ptr endp)))"
      by (rule read_uleb128_loop_char) simp_all
    then show ?thesis by (simp add: read_uleb128_def refused_from_0 split: option.splits)
  qed
  have B: "v < 2 ^ 64 \<and> uleb128_length (bytes_at mem ptr endp) \<le> 10"
    if "uleb128_value (bytes_at mem ptr endp) = Some v" "\<not> uleb128_tenth_byte_refused mem ptr endp" for v
    using uleb128_value_bound[of 0 mem ptr endp v] that by (simp add: refused_from_0)
  have C: "read_uleb128 mem ptr endp = Inl (OverflowError ''ULEB128 overflowed unsigned 64-bit integer'')"
    if "uleb128_value (bytes_at mem ptr endp) = Some v" "v \<ge> 2 ^ 64" for v
  proof (cases "uleb128_tenth_byte_refused mem ptr endp")
    case True then show ?thesis by (simp add: A)
  next
    case False
    with B[OF that(1)] have "v < 2 ^ 64" by blast
    with that(2) show ?thesis by arith
  qed
  show ?thesis
  proof (intro conjI allI impI)
    show "read_uleb128 mem ptr endp =
     (if uleb128_tenth_byte_refused mem ptr endp
      then Inl (OverflowError ''ULEB128 overflowed unsigned 64-bit integer'')
      else case uleb128_value (bytes_at mem ptr endp) of
             None \<Rightarrow> Inl EOFError
           | Some v \<Rightarrow> Inr (word_of_nat v, ptr + uleb128_length (bytes_at mem ptr endp)))"
      by (rule A)
  next
    fix v assume "uleb128_value (bytes_at mem ptr endp) = Some v"
    then show "if uleb128_tenth_byte_refused mem ptr endp then True
           else v < 2 ^ 64 \<and> uleb128_length (bytes_at mem ptr endp) \<le> 10"
      using B[of v] by (cases "uleb128_tenth_byte_refused mem ptr endp") simp_all
  next
    fix v assume "uleb128_value (bytes_at mem ptr endp) = Some v \<and> v \<ge> 2 ^ 64"
    then show "read_uleb128 mem ptr endp = Inl (OverflowError ''ULEB128 overflowed unsigned 64-bit integer'')"
      using C[of v] by blast
  qed
qed

text \<open>
  The theorem at the three-byte encoding \<open>E5 8E 26\<close> of 624485, read whole and
  read with the last byte cut off.
\<close>

theorem read_uleb128_characterisation_witness:
  "read_uleb128 (mem_of [0xE5, 0x8E, 0x26]) 0 3 = Inr (624485, 3)
   \<and> read_uleb128 (mem_of [0xE5, 0x8E, 0x26]) 0 2 = Inl EOFError"
  using read_uleb128_characterisation[of "mem_of [0xE5, 0x8E, 0x26]" 0 3]
        read_uleb128_characterisation[of "mem_of [0xE5, 0x8E, 0x26]" 0 2]
  by (simp add: uleb128_tenth_byte_refused_def bytes_at_def mem_of_def upt_conv_Cons)

section \<open>Claim C6: coalescing of fixed-length skips\<close>

text \<open>
  C6: when the attribute loop is about to emit a fixed-length skip \<open>N < 243\<close> and the
  last command written is a literal skip \<open>M < 243\<close>, the two are merged: into the one
  byte \<open>M + N\<close> when \<open>M + N < 243\<close>, and otherwise into the byte 242 followed by
  the new literal \<open>M + N - 242\<close>. Hence the attribute specifications that consist of one
  or more fixed-size skips of total size \<open>S < 243\<close> followed by one attribute of a
  LEB128 form compile to exactly the two commands \<open>[S, ATTRIB_LEB128]\<close>, to which
  \<open>read_abbrev_decl\<close> appends the terminator.
\<close>

theorem skip_coalescing:
  "(\<forall>pre M N name form. skip_size cu tag name form = Some N
       \<and> M < ATTRIB_MIN_CMD \<and> N < ATTRIB_MIN_CMD \<longrightarrow>
       compile_attrib cu tag (pre @ [M]) name form =
         Inr (next_tag name tag,
              if unat M + unat N < 243 then pre @ [M + N]
              else pre @ [242, M + N - 242]))
   \<and> (\<forall>ps n f p' S t1. attrib_pairs mem ptr endp = Inr (ps @ [(n, f)], p')
       \<and> ps \<noteq> [] \<and> skips_total cu tag ps = Some (S, t1) \<and> S < 243
       \<and> special_cmd n f t1 = None \<and> form_cmd cu f = Append ATTRIB_LEB128 \<longrightarrow>
       read_attribs mem ptr endp cu tag [] =
         Inr (p', next_tag n t1, [word_of_nat S, ATTRIB_LEB128]))"
proof (intro conjI allI impI)
  fix pre M N name form
  assume a: "skip_size cu tag name form = Some N \<and> M < ATTRIB_MIN_CMD \<and> N < ATTRIB_MIN_CMD"
  have w: "word_of_nat (unat M + unat N - 242) = M + N - 242"
    if "\<not> unat M + unat N < 243"
  proof -
    have "(word_of_nat (unat M + unat N - 242) :: 8 word) + 242 = word_of_nat (unat M + unat N - 242 + 242)"
      by simp
    also have "unat M + unat N - 242 + 242 = unat M + unat N" using that by simp
    finally have "(word_of_nat (unat M + unat N - 242) :: 8 word) + 242 = M + N" by simp
    then show ?thesis by (simp add: algebra_simps)
  qed
  from a show "compile_attrib cu tag (pre @ [M]) name form =
         Inr (next_tag name tag,
              if unat M + unat N < 243 then pre @ [M + N]
              else pre @ [242, M + N - 242])"
    using compile_attrib_skip[of cu tag name form N "pre @ [M]"] emit_skip_merge[of M pre N] w
    by auto
next
  fix ps n f p' S t1
  assume a: "attrib_pairs mem ptr endp = Inr (ps @ [(n, f)], p')
       \<and> ps \<noteq> [] \<and> skips_total cu tag ps = Some (S, t1) \<and> S < 243
       \<and> special_cmd n f t1 = None \<and> form_cmd cu f = Append ATTRIB_LEB128"
  then have c1: "compile_attribs cu tag [] ps = Inr (t1, [word_of_nat S])"
    using compile_skips_from_empty[of ps cu tag S t1] by blast
  have c2: "compile_attrib cu t1 [word_of_nat S] n f = Inr (next_tag n t1, [word_of_nat S, ATTRIB_LEB128])"
    using a by (simp add: compile_attrib_def)
  have "compile_attribs cu tag [] (ps @ [(n, f)]) = Inr (next_tag n t1, [word_of_nat S, ATTRIB_LEB128])"
    using c1 c2 by (simp add: compile_attribs_append)
  then show "read_attribs mem ptr endp cu tag [] =
         Inr (p', next_tag n t1, [word_of_nat S, ATTRIB_LEB128])"
    using read_attribs_refines[of mem ptr endp "ps @ [(n, f)]" p' cu tag "[]"] a by simp
qed

text \<open>
  The theorem on an abbreviation with ten fixed-size skips of 46 bytes in all before an
  attribute of form \<open>DW_FORM_udata\<close>, and on a skip of 8 bytes emitted after a literal
  skip of 240.
\<close>

theorem skip_coalescing_witness:
  "read_attribs (mem_of ten_skips_bytes) 0 24 example_cu DW_TAG_base_type []
     = Inr (24, DW_TAG_base_type, [46, ATTRIB_LEB128])
   \<and> compile_attrib example_cu DW_TAG_base_type [ATTRIB_STRING, 240] 0x12 DW_FORM_data8
     = Inr (DW_TAG_base_type, [ATTRIB_STRING, 242, 6])"
proof -
  have ap: "attrib_pairs (mem_of ten_skips_bytes) 0 24 = Inr (ten_skips @ [(0x0b, 0x0f)], 24)"
    by (simp add: attrib_pairs.simps read_uleb128_def read_uleb128_loop.simps mem_of_def
        ten_skips_bytes_def ten_skips_def Let_def)
  have st: "skips_total example_cu DW_TAG_base_type ten_skips = Some (46, DW_TAG_base_type)"
    by (simp add: ten_skips_def skip_size_def special_cmd_def form_cmd_def next_tag_def
        example_cu_def DW_TAG_defs DW_AT_defs DW_FORM_defs)
  have sp: "special_cmd 0x0b 0x0f DW_TAG_base_type = None"
    by (simp add: special_cmd_def DW_AT_defs DW_TAG_defs)
  have fc: "form_cmd example_cu 0x0f = Append ATTRIB_LEB128"
    by (simp add: form_cmd_def DW_FORM_defs)
  have ne: "ten_skips \<noteq> []" by (simp add: ten_skips_def)
  have nt: "next_tag 0x0b DW_TAG_base_type = DW_TAG_base_type"
    by (simp add: next_tag_def DW_AT_defs DW_TAG_defs)
  have sk: "skip_size example_cu DW_TAG_base_type 0x12 DW_FORM_data8 = Some 8"
    by (simp add: skip_size_def special_cmd_def form_cmd_def DW_AT_defs DW_FORM_defs)
  have nt2: "next_tag 0x12 DW_TAG_base_type = DW_TAG_base_type"
    by (simp add: next_tag_def DW_AT_defs DW_TAG_defs)
  note sc = skip_coalescing[of example_cu DW_TAG_base_type "mem_of ten_skips_bytes" 0 24]
  from sc ap ne st sp fc
  have "read_attribs (mem_of ten_skips_bytes) 0 24 example_cu DW_TAG_base_type []
     = Inr (24, next_tag 0x0b DW_TAG_base_type, [word_of_nat 46, ATTRIB_LEB128])"
    by (elim conjE allE[where x = ten_skips]) auto
  then have e1: "read_attribs (mem_of ten_skips_bytes) 0 24 example_cu DW_TAG_base_type []
     = Inr (24, DW_TAG_base_type, [46, ATTRIB_LEB128])"
    using nt by simp
  have "(240 :: 8 word) < ATTRIB_MIN_CMD \<and> (8 :: 8 word) < ATTRIB_MIN_CMD"
    by (simp add: ATTRIB_defs)
  with sc sk
  have "compile_attrib example_cu DW_TAG_base_type ([ATTRIB_STRING] @ [240]) 0x12 DW_FORM_data8
     = Inr (next_tag 0x12 DW_TAG_base_type,
            if unat (240 :: 8 word) + unat (8 :: 8 word) < 243 then [ATTRIB_STRING] @ [240 + 8]
            else [ATTRIB_STRING] @ [242, 240 + 8 - 242])"
    by blast
  then have e2: "compile_attrib example_cu DW_TAG_base_type [ATTRIB_STRING, 240] 0x12 DW_FORM_data8
     = Inr (DW_TAG_base_type, [ATTRIB_STRING, 242, 6])"
    using nt2 by simp
  show ?thesis using e1 e2 by simp
qed

section \<open>Claim C7: the symbol bound of a relocation\<close>

text \<open>
  C7: \<open>apply_relocations\<close> rejects an entry of type \<open>R_X86_64_32\<close> or
  \<open>R_X86_64_64\<close> with the invalid-relocation-symbol \<open>ElfFormatError\<close> if and only
  if \<open>r_sym\<close> is greater than or equal to the number of symbol-table entries,
  \<open>symtab.size / sizeof(Elf64_Sym)\<close>. The source divides by \<open>sizeof(Elf64_Rela)\<close>;
  both structures are 24 bytes long, so the bound is the same number.

  The statement is on the function. It returns this error exactly when it reaches,
  the entries before it being accepted, an entry of type 32 or 64 whose \<open>r_sym\<close> is
  at or above the bound. And for every entry of type 32 or 64 that it reaches, it
  stops at this entry with this error if and only if the \<open>r_sym\<close> of the entry is at
  or above the bound; the entry is read in the memory the earlier entries have left.
\<close>

theorem apply_relocations_symbol_check:
  "((apply_relocations mem sec rela_section symtab
       = Inl (ElfFormatError ''invalid relocation symbol''))
    = (\<exists>i m. i < unat (size_sec rela_section) div sizeof_Elf64_Rela
         \<and> apply_relocations mem sec (first_relocs rela_section i) symtab = Inr m
         \<and> (rela_type (load_rela m (buffer rela_section) i) = R_X86_64_32
            \<or> rela_type (load_rela m (buffer rela_section) i) = R_X86_64_64)
         \<and> unat (rela_sym (load_rela m (buffer rela_section) i))
             \<ge> unat (size_sec symtab) div sizeof_Elf64_Sym))
   \<and> (\<forall>i m. i < unat (size_sec rela_section) div sizeof_Elf64_Rela
         \<and> apply_relocations mem sec (first_relocs rela_section i) symtab = Inr m
         \<and> (rela_type (load_rela m (buffer rela_section) i) = R_X86_64_32
            \<or> rela_type (load_rela m (buffer rela_section) i) = R_X86_64_64) \<longrightarrow>
         (apply_relocations mem sec (first_relocs rela_section (i + 1)) symtab
            = Inl (ElfFormatError ''invalid relocation symbol''))
         = (unat (rela_sym (load_rela m (buffer rela_section) i))
             \<ge> unat (size_sec symtab) div sizeof_Elf64_Sym))"
proof (intro conjI allI impI)
  let ?n = "unat (size_sec rela_section) div sizeof_Elf64_Rela"
  let ?ns = "unat (size_sec symtab) div sizeof_Elf64_Rela"
  have full: "apply_relocations mem sec rela_section symtab
      = apply_relocations_loop mem sec (buffer rela_section) ?n (buffer symtab) ?ns 0"
    by (simp add: apply_relocations_def Let_def)
  have "(apply_relocations mem sec rela_section symtab
       = Inl (ElfFormatError ''invalid relocation symbol''))
    = (\<exists>i m. i < ?n
         \<and> apply_relocations_loop mem sec (buffer rela_section) i (buffer symtab) ?ns 0 = Inr m
         \<and> apply_relocation m sec (buffer symtab) ?ns (load_rela m (buffer rela_section) i)
             = Inl (ElfFormatError ''invalid relocation symbol''))"
    unfolding full by (rule apply_relocations_loop_fails)
  also have "\<dots> = (\<exists>i m. i < ?n
         \<and> apply_relocations mem sec (first_relocs rela_section i) symtab = Inr m
         \<and> (rela_type (load_rela m (buffer rela_section) i) = R_X86_64_32
            \<or> rela_type (load_rela m (buffer rela_section) i) = R_X86_64_64)
         \<and> unat (rela_sym (load_rela m (buffer rela_section) i))
             \<ge> unat (size_sec symtab) div sizeof_Elf64_Sym)"
    using apply_relocations_first[of _ rela_section mem sec symtab]
    by (auto simp: apply_relocation_symbol_iff sym_count[symmetric])
  finally show "(apply_relocations mem sec rela_section symtab
       = Inl (ElfFormatError ''invalid relocation symbol''))
    = (\<exists>i m. i < ?n
         \<and> apply_relocations mem sec (first_relocs rela_section i) symtab = Inr m
         \<and> (rela_type (load_rela m (buffer rela_section) i) = R_X86_64_32
            \<or> rela_type (load_rela m (buffer rela_section) i) = R_X86_64_64)
         \<and> unat (rela_sym (load_rela m (buffer rela_section) i))
             \<ge> unat (size_sec symtab) div sizeof_Elf64_Sym)" .
next
  fix i m
  let ?n = "unat (size_sec rela_section) div sizeof_Elf64_Rela"
  let ?ns = "unat (size_sec symtab) div sizeof_Elf64_Rela"
  assume a: "i < ?n
         \<and> apply_relocations mem sec (first_relocs rela_section i) symtab = Inr m
         \<and> (rela_type (load_rela m (buffer rela_section) i) = R_X86_64_32
            \<or> rela_type (load_rela m (buffer rela_section) i) = R_X86_64_64)"
  then have p: "apply_relocations_loop mem sec (buffer rela_section) i (buffer symtab) ?ns 0 = Inr m"
    using apply_relocations_first[of i rela_section mem sec symtab] by simp
  from a have "i + 1 \<le> ?n" by simp
  from apply_relocations_first[OF this, of mem sec symtab]
  have "apply_relocations mem sec (first_relocs rela_section (i + 1)) symtab
      = apply_relocations_loop mem sec (buffer rela_section) (Suc i) (buffer symtab) ?ns 0"
    by simp
  also have "\<dots> = apply_relocation m sec (buffer symtab) ?ns (load_rela m (buffer rela_section) i)"
    using apply_relocations_loop_snoc[of 0 i mem sec "buffer rela_section" "buffer symtab" ?ns] p
    by simp
  finally show "(apply_relocations mem sec (first_relocs rela_section (i + 1)) symtab
            = Inl (ElfFormatError ''invalid relocation symbol''))
         = (unat (rela_sym (load_rela m (buffer rela_section) i))
             \<ge> unat (size_sec symtab) div sizeof_Elf64_Sym)"
    using a by (simp add: apply_relocation_symbol_iff sym_count[symmetric])
qed

text \<open>
  The theorem on the mapping \<open>bad_sym_mem\<close>: the first entry, for symbol 0, is accepted,
  and the function returns the error at the second entry, for symbol 1, the symbol
  table having one symbol.
\<close>

theorem apply_relocations_symbol_check_witness:
  "apply_relocations bad_sym_mem bad_sym_sec bad_sym_rela bad_sym_symtab
     = Inl (ElfFormatError ''invalid relocation symbol'')
   \<and> apply_relocations bad_sym_mem bad_sym_sec (first_relocs bad_sym_rela 1) bad_sym_symtab
     = Inr (store_u64 bad_sym_mem 0 0x11)
   \<and> rela_type (load_rela (store_u64 bad_sym_mem 0 0x11) (buffer bad_sym_rela) 1) = R_X86_64_32
   \<and> unat (rela_sym (load_rela (store_u64 bad_sym_mem 0 0x11) (buffer bad_sym_rela) 1)) = 1
   \<and> unat (size_sec bad_sym_symtab) div sizeof_Elf64_Sym = 1
   \<and> apply_relocations bad_sym_mem bad_sym_sec (first_relocs bad_sym_rela 0) bad_sym_symtab
     = Inr bad_sym_mem
   \<and> rela_type (load_rela bad_sym_mem (buffer bad_sym_rela) 0) = R_X86_64_64
   \<and> unat (rela_sym (load_rela bad_sym_mem (buffer bad_sym_rela) 0)) = 0
   \<and> apply_relocations bad_sym_mem bad_sym_sec (first_relocs bad_sym_rela (0 + 1)) bad_sym_symtab
     \<noteq> Inl (ElfFormatError ''invalid relocation symbol'')"
proof -
  let ?m = "store_u64 bad_sym_mem 0 0x11"
  have n: "(1::nat) < unat (size_sec bad_sym_rela) div sizeof_Elf64_Rela"
      "(0::nat) < unat (size_sec bad_sym_rela) div sizeof_Elf64_Rela"
    by (simp_all add: bad_sym_rela_def sizeof_Elf64_Rela_def)
  have p0: "apply_relocations bad_sym_mem bad_sym_sec (first_relocs bad_sym_rela 0) bad_sym_symtab
     = Inr bad_sym_mem"
    by (simp add: apply_relocations_def apply_relocations_loop.simps first_relocs_def
        bad_sym_rela_def sizeof_Elf64_Rela_def Let_def)
  have p1: "apply_relocations bad_sym_mem bad_sym_sec (first_relocs bad_sym_rela 1) bad_sym_symtab
     = Inr ?m"
    by (simp add: reloc_eval first_relocs_def bad_sym_mem_def bad_sym_sec_def bad_sym_rela_def
        bad_sym_symtab_def)
  have t1: "rela_type (load_rela ?m (buffer bad_sym_rela) 1) = R_X86_64_32"
    and s1: "unat (rela_sym (load_rela ?m (buffer bad_sym_rela) 1)) = 1"
    by (simp_all add: reloc_eval bad_sym_mem_def bad_sym_rela_def)
  have t0: "rela_type (load_rela bad_sym_mem (buffer bad_sym_rela) 0) = R_X86_64_64"
    and s0: "unat (rela_sym (load_rela bad_sym_mem (buffer bad_sym_rela) 0)) = 0"
    by (simp_all add: reloc_eval bad_sym_mem_def bad_sym_rela_def)
  have c: "unat (size_sec bad_sym_symtab) div sizeof_Elf64_Sym = 1"
    by (simp add: bad_sym_symtab_def sizeof_Elf64_Sym_def)
  note sc = apply_relocations_symbol_check[of bad_sym_mem bad_sym_sec bad_sym_rela bad_sym_symtab]
  from sc n(1) p1 t1 s1 c
  have e1: "apply_relocations bad_sym_mem bad_sym_sec bad_sym_rela bad_sym_symtab
     = Inl (ElfFormatError ''invalid relocation symbol'')"
    by (metis le_refl)
  from sc n(2) p0 t0 s0 c
  have e2: "apply_relocations bad_sym_mem bad_sym_sec (first_relocs bad_sym_rela (0 + 1)) bad_sym_symtab
     \<noteq> Inl (ElfFormatError ''invalid relocation symbol'')"
    by (metis not_one_le_zero)
  from e1 p1 t1 s1 c p0 t0 s0 e2 show ?thesis by blast
qed

section \<open>Claim C8: abbreviation codes are sequential\<close>

text \<open>
  C8: while an abbreviation table is parsed, a code of 0 ends the table successfully; a
  nonzero code that is not the number of declarations read so far plus one fails with
  \<open>NotImplementedError\<close>, for the declaration and so for the table. Hence, after a
  successful parse, the declarations were read with the codes 1, 2, ... in this order,
  and the one read with code \<open>k + 1\<close> is the element of index \<open>k\<close> of the vector.
\<close>

theorem read_abbrev_table_sequential:
  "(\<forall>p1. read_uleb128 mem ptr endp = Inr (0, p1) \<longrightarrow>
       read_abbrev_decl mem ptr endp cu = Inr None
       \<and> read_abbrev_table_loop mem ptr endp cu = Inr cu)
   \<and> (\<forall>code p1. read_uleb128 mem ptr endp = Inr (code, p1) \<and> code \<noteq> 0
         \<and> unat code \<noteq> length (abbrev_decls cu) + 1 \<longrightarrow>
       read_abbrev_decl mem ptr endp cu
         = Inl (NotImplementedError ''abbreviation table is not sequential'')
       \<and> read_abbrev_table_loop mem ptr endp cu
         = Inl (NotImplementedError ''abbreviation table is not sequential''))
   \<and> (\<forall>cu'. read_abbrev_table mem ptr endp cu = Inr cu' \<longrightarrow>
       abbrev_table_trace mem ptr endp (cu\<lparr>abbrev_decls := []\<rparr>)
         = map (\<lambda>k. (word_of_nat (k + 1), abbrev_decls cu' ! k))
             [0..<length (abbrev_decls cu')])"
proof (intro conjI allI impI)
  fix p1 assume a: "read_uleb128 mem ptr endp = Inr (0, p1)"
  show "read_abbrev_decl mem ptr endp cu = Inr None"
    using a by (rule read_abbrev_decl_code0)
  then show "read_abbrev_table_loop mem ptr endp cu = Inr cu"
    by (subst read_abbrev_table_loop.simps) simp
next
  fix code p1
  assume a: "read_uleb128 mem ptr endp = Inr (code, p1) \<and> code \<noteq> 0
         \<and> unat code \<noteq> length (abbrev_decls cu) + 1"
  then show d: "read_abbrev_decl mem ptr endp cu
         = Inl (NotImplementedError ''abbreviation table is not sequential'')"
    using read_abbrev_decl_not_sequential[of mem ptr endp code p1 cu] by blast
  then show "read_abbrev_table_loop mem ptr endp cu
         = Inl (NotImplementedError ''abbreviation table is not sequential'')"
    by (subst read_abbrev_table_loop.simps) simp
next
  fix cu' assume "read_abbrev_table mem ptr endp cu = Inr cu'"
  then have "read_abbrev_table_loop mem ptr endp (cu\<lparr>abbrev_decls := []\<rparr>) = Inr cu'"
    by (simp add: read_abbrev_table_def)
  from read_abbrev_table_loop_trace[OF this]
  show "abbrev_table_trace mem ptr endp (cu\<lparr>abbrev_decls := []\<rparr>)
         = map (\<lambda>k. (word_of_nat (k + 1), abbrev_decls cu' ! k))
             [0..<length (abbrev_decls cu')]"
    by auto
qed


text \<open>
  The theorem on a table with the codes 1 and 2, and on a table that starts with code 2.
\<close>

theorem read_abbrev_table_sequential_witness:
  "read_abbrev_table (mem_of example_table) 0 17 example_cu
     = Inr (example_cu\<lparr>abbrev_decls :=
              [\<lparr>cmds = [254, 4, 0, 0x34, 0]\<rparr>, \<lparr>cmds = [255, 0, 0x13, 1]\<rparr>]\<rparr>)
   \<and> abbrev_table_trace (mem_of example_table) 0 17 (example_cu\<lparr>abbrev_decls := []\<rparr>)
     = [(1, \<lparr>cmds = [254, 4, 0, 0x34, 0]\<rparr>), (2, \<lparr>cmds = [255, 0, 0x13, 1]\<rparr>)]
   \<and> read_abbrev_table (mem_of gap_table) 0 6 example_cu
     = Inl (NotImplementedError ''abbreviation table is not sequential'')"
proof -
  have e1: "read_abbrev_table (mem_of example_table) 0 17 example_cu
     = Inr (example_cu\<lparr>abbrev_decls :=
              [\<lparr>cmds = [254, 4, 0, 0x34, 0]\<rparr>, \<lparr>cmds = [255, 0, 0x13, 1]\<rparr>]\<rparr>)"
    by (simp add: abbrev_eval example_table_def example_cu_def)
  have e2: "abbrev_table_trace (mem_of example_table) 0 17 (example_cu\<lparr>abbrev_decls := []\<rparr>)
     = [(1, \<lparr>cmds = [254, 4, 0, 0x34, 0]\<rparr>), (2, \<lparr>cmds = [255, 0, 0x13, 1]\<rparr>)]"
    using read_abbrev_table_sequential[of "mem_of example_table" 0 17 example_cu] e1
    by (simp add: upt_conv_Cons example_cu_def)
  have r: "read_uleb128 (mem_of gap_table) 0 6 = Inr (2, 1)"
    by (simp add: read_uleb128_def read_uleb128_loop.simps mem_of_def gap_table_def)
  have "read_abbrev_table_loop (mem_of gap_table) 0 6 (example_cu\<lparr>abbrev_decls := []\<rparr>)
     = Inl (NotImplementedError ''abbreviation table is not sequential'')"
    using read_abbrev_table_sequential[of "mem_of gap_table" 0 6 "example_cu\<lparr>abbrev_decls := []\<rparr>"] r
    by simp
  then have e3: "read_abbrev_table (mem_of gap_table) 0 6 example_cu
     = Inl (NotImplementedError ''abbreviation table is not sequential'')"
    by (simp add: read_abbrev_table_def)
  show ?thesis using e1 e2 e3 by simp
qed

section \<open>Claim C9: the string section ends with a NUL\<close>

text \<open>
  C9: once the relocations are applied, and before any unit is read (so whatever the
  units are, and even with no iteration allowed), the construction fails with the
  \<open>DwarfFormatError\<close> ``.debug_str is not null terminated'' when the string section is
  empty or its last byte is not 0. When the units are read without error and the
  construction does not fail with that error, the section is not empty and ends with
  a 0, and the result is the one of indexing the units; a successful construction has
  passed the check. Therefore a name pointer set by the command for
  \<open>(DW_AT_name, DW_FORM_strp)\<close> at an offset strictly below the size of the section
  points into the section, and a 0 byte lies between it and the end of the section.
\<close>

theorem debug_str_null_terminated:
  "(\<forall>m. relocate_file mem f = Inr m
        \<and> (size_sec (f_debug_str f) = 0
           \<or> m (buffer (f_debug_str f) + unat (size_sec (f_debug_str f)) - 1) \<noteq> 0) \<longrightarrow>
        DwarfIndex_init_file fuel mem tbl f
          = Some (Inl (DwarfFormatError ''.debug_str is not null terminated'')))
   \<and> (\<forall>m units. relocate_file mem f = Inr m \<and> read_cus fuel m f = Some (Inr units)
        \<and> DwarfIndex_init_file fuel mem tbl f
            \<noteq> Some (Inl (DwarfFormatError ''.debug_str is not null terminated'')) \<longrightarrow>
        debug_str_terminated m (f_debug_str f)
        \<and> DwarfIndex_init_file fuel mem tbl f
            = (case index_cus fuel m (f_debug_str f) units tbl of
                 None \<Rightarrow> None
               | Some (Inl e) \<Rightarrow> Some (Inl e)
               | Some (Inr tbl') \<Rightarrow> Some (Inr (m, f\<lparr>f_cus := units\<rparr>, tbl'))))
   \<and> (\<forall>m f' tbl'. DwarfIndex_init_file fuel mem tbl f = Some (Inr (m, f', tbl')) \<longrightarrow>
        relocate_file mem f = Inr m \<and> debug_str_terminated m (f_debug_str f))
   \<and> (\<forall>m cu endp ptr name0 sib0 p n sib.
        debug_str_terminated m (f_debug_str f)
        \<and> exec_cmd m cu endp (f_debug_str f) ATTRIB_NAME_STRP (ptr, name0, sib0)
            = Inr (p, Some n, sib)
        \<and> n < buffer (f_debug_str f) + unat (size_sec (f_debug_str f)) \<longrightarrow>
        buffer (f_debug_str f) \<le> n
        \<and> (\<exists>q. n \<le> q \<and> q < buffer (f_debug_str f) + unat (size_sec (f_debug_str f))
               \<and> m q = 0))"
proof (intro conjI allI impI)
  fix m
  assume "relocate_file mem f = Inr m
        \<and> (size_sec (f_debug_str f) = 0
           \<or> m (buffer (f_debug_str f) + unat (size_sec (f_debug_str f)) - 1) \<noteq> 0)"
  then show "DwarfIndex_init_file fuel mem tbl f
          = Some (Inl (DwarfFormatError ''.debug_str is not null terminated''))"
    by (auto simp: DwarfIndex_init_file_def)
next
  fix m units
  assume a: "relocate_file mem f = Inr m \<and> read_cus fuel m f = Some (Inr units)
        \<and> DwarfIndex_init_file fuel mem tbl f
            \<noteq> Some (Inl (DwarfFormatError ''.debug_str is not null terminated''))"
  then show t: "debug_str_terminated m (f_debug_str f)"
    by (auto simp: DwarfIndex_init_file_def debug_str_terminated_def split: if_splits)
  from a t show "DwarfIndex_init_file fuel mem tbl f
            = (case index_cus fuel m (f_debug_str f) units tbl of
                 None \<Rightarrow> None
               | Some (Inl e) \<Rightarrow> Some (Inl e)
               | Some (Inr tbl') \<Rightarrow> Some (Inr (m, f\<lparr>f_cus := units\<rparr>, tbl')))"
    by (auto simp: DwarfIndex_init_file_def debug_str_terminated_def)
next
  fix m f' tbl'
  assume a: "DwarfIndex_init_file fuel mem tbl f = Some (Inr (m, f', tbl'))"
  then show "relocate_file mem f = Inr m"
    by (auto simp: DwarfIndex_init_file_def split: sum.splits if_splits option.splits)
  from a show "debug_str_terminated m (f_debug_str f)"
    by (auto simp: DwarfIndex_init_file_def debug_str_terminated_def
        split: sum.splits if_splits option.splits)
next
  fix m cu endp ptr name0 sib0 p n sib
  assume a: "debug_str_terminated m (f_debug_str f)
        \<and> exec_cmd m cu endp (f_debug_str f) ATTRIB_NAME_STRP (ptr, name0, sib0)
            = Inr (p, Some n, sib)
        \<and> n < buffer (f_debug_str f) + unat (size_sec (f_debug_str f))"
  let ?b = "buffer (f_debug_str f)" and ?s = "unat (size_sec (f_debug_str f))"
  from a exec_name_strp[of m cu endp "f_debug_str f" ptr name0 sib0 p "Some n" sib]
  obtain tmp where n: "n = ?b + tmp" by auto
  then show "?b \<le> n" by simp
  from a have z: "m (?b + ?s - 1) = 0" and nz: "size_sec (f_debug_str f) \<noteq> 0"
    by (auto simp: debug_str_terminated_def)
  from a have lt: "n < ?b + ?s" by blast
  then have "n \<le> ?b + ?s - 1" by arith
  moreover have "?b + ?s - 1 < ?b + ?s" using lt by arith
  ultimately show "\<exists>q. n \<le> q \<and> q < ?b + ?s \<and> m q = 0"
    using z by blast
qed

text \<open>
  The theorem on the file \<open>strp_file\<close>, whose unit names its variable by the offset 0
  into the string section \<open>foo\<close>, NUL: the construction succeeds, the name pointer is
  the address 37 and the NUL is found before the address 41. With the NUL cut
  off the section, the construction fails.
\<close>

theorem debug_str_null_terminated_witness:
  "DwarfIndex_init_file 3 strp_mem empty_die_hash strp_file_cut
      = Some (Inl (DwarfFormatError ''.debug_str is not null terminated''))
   \<and> DwarfIndex_init_file 3 strp_mem empty_die_hash strp_file
      = Some (Inr (strp_mem, strp_file\<lparr>f_cus := [strp_cu]\<rparr>,
                   empty_die_hash(29577 \<mapsto>
                     \<lparr> e_name = name_foo, e_tag = DW_TAG_variable, e_cu = 0, e_ptr = 12 \<rparr>)))
   \<and> debug_str_terminated strp_mem (f_debug_str strp_file)
   \<and> exec_cmd strp_mem strp_cu 22 (f_debug_str strp_file) ATTRIB_NAME_STRP (13, None, None)
      = Inr (17, Some 37, None)
   \<and> (\<exists>q. 37 \<le> q \<and> q < 41 \<and> strp_mem q = 0)"
proof -
  have cut: "size_sec (f_debug_str strp_file_cut) \<noteq> 0"
    "strp_mem (buffer (f_debug_str strp_file_cut) + unat (size_sec (f_debug_str strp_file_cut)) - 1) \<noteq> 0"
    by (simp_all add: strp_file_cut_def strp_file_def strp_mem_def mem_of_def)
  have e1: "DwarfIndex_init_file 3 strp_mem empty_die_hash strp_file_cut
      = Some (Inl (DwarfFormatError ''.debug_str is not null terminated''))"
    using debug_str_null_terminated[of strp_mem strp_file_cut 3 empty_die_hash]
      strp_relocate(2) cut by blast
  have tm: "debug_str_terminated strp_mem (f_debug_str strp_file)"
    using debug_str_null_terminated[of strp_mem strp_file 3 empty_die_hash] strp_init by blast
  have b: "buffer (f_debug_str strp_file) + unat (size_sec (f_debug_str strp_file)) = 41"
    by (simp add: strp_file_def)
  have "37 < buffer (f_debug_str strp_file) + unat (size_sec (f_debug_str strp_file))"
    by (simp add: strp_file_def)
  with debug_str_null_terminated[of strp_mem strp_file 3 empty_die_hash] tm strp_exec
  have "\<exists>q. 37 \<le> q \<and> q < buffer (f_debug_str strp_file) + unat (size_sec (f_debug_str strp_file))
          \<and> strp_mem q = 0"
    by blast
  then have e3: "\<exists>q. 37 \<le> q \<and> q < 41 \<and> strp_mem q = 0" unfolding b .
  from e1 strp_init tm strp_exec e3 show ?thesis by blast
qed


section \<open>Claim C10: relocations of type NONE\<close>



end
